theory Spec2Isabelle
  imports Complex_Main "HOL-Library.Sublist"
begin


section \<open>Python strings\<close>

text \<open>
  A Python \<open>str\<close> is modelled as a \<open>string\<close> whose characters are the code points
  below 256. \<open>str.lower\<close> and \<open>str.isspace\<close> are written out for that range.
\<close>

definition lower_char :: "char \<Rightarrow> char" where
  "lower_char c =
     (let n = (of_char c :: nat)
      in if (65 \<le> n \<and> n \<le> 90) \<or> (192 \<le> n \<and> n \<le> 222 \<and> n \<noteq> 215)
         then char_of (n + 32) else c)"

definition lower :: "string \<Rightarrow> string" where
  "lower s = map lower_char s"

definition isspace :: "char \<Rightarrow> bool" where
  "isspace c =
     (let n = (of_char c :: nat)
      in (9 \<le> n \<and> n \<le> 13) \<or> (28 \<le> n \<and> n \<le> 32) \<or> n = 133 \<or> n = 160)"

definition lstrip :: "string \<Rightarrow> string" where
  "lstrip s = dropWhile isspace s"

definition rstrip :: "string \<Rightarrow> string" where
  "rstrip s = rev (dropWhile isspace (rev s))"

definition strip :: "string \<Rightarrow> string" where
  "strip s = rstrip (lstrip s)"

text \<open>\<open>contains s p\<close> is Python's \<open>p in s\<close> on strings.\<close>

fun contains :: "string \<Rightarrow> string \<Rightarrow> bool" where
  "contains [] p = (p = [])"
| "contains (c # cs) p = (prefix p (c # cs) \<or> contains cs p)"

section \<open>scoring.py\<close>

definition true_variants :: "string list" where
  "true_variants = [''true'', ''correct'', ''accurate'', ''verified'', ''factual'']"

definition false_variants :: "string list" where
  "false_variants = [''false'', ''incorrect'', ''inaccurate'', ''debunked'', ''disproven'']"

definition misleading_variants :: "string list" where
  "misleading_variants =
     [''misleading'', ''partially true'', ''partially false'', ''mixed'', ''unclear'']"

definition normalize_verdict :: "string \<Rightarrow> string" where
  "normalize_verdict verdict =
     (let verdict_lower = strip (lower verdict)
      in if list_ex (contains verdict_lower) true_variants then ''true''
         else if list_ex (contains verdict_lower) false_variants then ''false''
         else if list_ex (contains verdict_lower) misleading_variants then ''misleading''
         else ''unverified'')"

datatype py_error = ValueError | AttributeError | TypeError | KeyError | OverflowError
  | JSONDecodeError | BackendError

text \<open>
  An entry of the list given to \<open>aggregate_verdicts\<close>: a dict read only through
  \<open>v.get("verdict", "unverified")\<close> and \<open>v.get("confidence", 0.0)\<close>, so each key may
  be absent.
\<close>

record agent_response =
  resp_verdict :: "string option"
  resp_confidence :: "real option"

definition get_verdict :: "agent_response \<Rightarrow> string" where
  "get_verdict v = (case resp_verdict v of None \<Rightarrow> ''unverified'' | Some s \<Rightarrow> s)"

definition get_confidence :: "agent_response \<Rightarrow> real" where
  "get_confidence v = (case resp_confidence v of None \<Rightarrow> 0 | Some c \<Rightarrow> c)"

text \<open>
  The dict \<open>verdict_counts\<close>, in insertion order:
  \<open>verdict_counts[verdict] = verdict_counts.get(verdict, 0) + 1\<close> keeps the place of a
  key already there and appends a new one.
\<close>

fun count_verdict :: "(string \<times> nat) list \<Rightarrow> string \<Rightarrow> (string \<times> nat) list" where
  "count_verdict [] v = [(v, 1)]"
| "count_verdict ((k, n) # kvs) v =
     (if k = v then (k, n + 1) # kvs else (k, n) # count_verdict kvs v)"

definition verdict_counts_of :: "string list \<Rightarrow> (string \<times> nat) list" where
  "verdict_counts_of normalized = foldl count_verdict [] normalized"

text \<open>
  \<open>max(items, key=lambda x: x[1])\<close>: the running best is replaced only by a strictly
  larger count, so the first maximum wins; an empty sequence raises.
\<close>

fun max_from :: "(string \<times> nat) \<Rightarrow> (string \<times> nat) list \<Rightarrow> (string \<times> nat)" where
  "max_from best [] = best"
| "max_from best (kv # kvs) = max_from (if snd best < snd kv then kv else best) kvs"

definition max_by_count :: "(string \<times> nat) list \<Rightarrow> py_error + (string \<times> nat)" where
  "max_by_count items = (case items of [] \<Rightarrow> Inl ValueError | kv # kvs \<Rightarrow> Inr (max_from kv kvs))"

record aggregated =
  agg_verdict :: string
  agg_confidence :: real
  agg_count :: nat
  agg_distribution :: "(string \<times> nat) list option"

definition matching_verdicts :: "agent_response list \<Rightarrow> string list \<Rightarrow> string \<Rightarrow> agent_response list" where
  "matching_verdicts verdicts normalized final_verdict =
     map fst (filter (\<lambda>(v, n). n = final_verdict) (zip verdicts normalized))"

definition normalized_verdicts :: "agent_response list \<Rightarrow> string list" where
  "normalized_verdicts verdicts = map (\<lambda>v. normalize_verdict (get_verdict v)) verdicts"

definition aggregate_verdicts :: "agent_response list \<Rightarrow> py_error + aggregated" where
  "aggregate_verdicts verdicts =
     (if verdicts = [] then
        Inr \<lparr>agg_verdict = ''unverified'', agg_confidence = 0, agg_count = 0,
             agg_distribution = None\<rparr>
      else
        let normalized = normalized_verdicts verdicts;
            verdict_counts = verdict_counts_of normalized
        in case max_by_count verdict_counts of
             Inl e \<Rightarrow> Inl e
           | Inr best \<Rightarrow>
               let final_verdict = fst best;
                   matching = matching_verdicts verdicts normalized final_verdict;
                   avg_confidence =
                     (if matching \<noteq> []
                      then sum_list (map get_confidence matching) / real (length matching)
                      else 0)
               in Inr \<lparr>agg_verdict = final_verdict, agg_confidence = avg_confidence,
                       agg_count = length verdicts,
                       agg_distribution = Some verdict_counts\<rparr>)"

section \<open>More of Python's \<open>str\<close>\<close>

text \<open>\<open>str.split()\<close> without a separator: the maximal runs of non-whitespace.\<close>

fun split_acc :: "string \<Rightarrow> string \<Rightarrow> string list" where
  "split_acc cur [] = (if cur = [] then [] else [cur])"
| "split_acc cur (c # cs) =
     (if isspace c then (if cur = [] then split_acc [] cs else cur # split_acc [] cs)
      else split_acc (cur @ [c]) cs)"

definition split :: "string \<Rightarrow> string list" where
  "split s = split_acc [] s"

text \<open>\<open>sep.join(parts)\<close>.\<close>

fun join :: "string \<Rightarrow> string list \<Rightarrow> string" where
  "join sep [] = []"
| "join sep [p] = p"
| "join sep (p # ps) = p @ sep @ join sep ps"

text \<open>\<open>str(n)\<close> for a non-negative integer.\<close>

definition digit_char :: "nat \<Rightarrow> char" where
  "digit_char d = ''0123456789'' ! (d mod 10)"

function str_of_nat :: "nat \<Rightarrow> string" where
  "str_of_nat n =
     (if n < 10 then [digit_char n] else str_of_nat (n div 10) @ [digit_char (n mod 10)])"
  by pat_completeness auto
termination by (relation "measure id") auto

declare str_of_nat.simps [simp del]

text \<open>
  \<open>s.find(c)\<close> and \<open>s.rfind(c)\<close> for a one-character \<open>c\<close> (\<open>-1\<close> when absent), and the
  slice \<open>s[start:end]\<close> for non-negative bounds.
\<close>

definition find_char :: "string \<Rightarrow> char \<Rightarrow> int" where
  "find_char s c = (if c \<in> set s then int (length (takeWhile (\<lambda>x. x \<noteq> c) s)) else - 1)"

definition rfind_char :: "string \<Rightarrow> char \<Rightarrow> int" where
  "rfind_char s c =
     (if c \<in> set s then int (length s) - 1 - int (length (takeWhile (\<lambda>x. x \<noteq> c) (rev s)))
      else - 1)"

definition slice :: "string \<Rightarrow> int \<Rightarrow> int \<Rightarrow> string" where
  "slice s start end' = take (nat end' - nat start) (drop (nat start) s)"

definition nl :: string where
  "nl = [CHR 0x0A]"

section \<open>llm.py: the rule-based verifier\<close>

text \<open>
  An evidence item is a \<open>Dict[str, str]\<close>. Python floats are modelled as reals: no
  rounding, no infinities and no NaN.
\<close>

type_synonym evidence = "string \<rightharpoonup> string"

definition get_default :: "evidence \<Rightarrow> string \<Rightarrow> string \<Rightarrow> string" where
  "get_default ev k d = (case ev k of None \<Rightarrow> d | Some v \<Rightarrow> v)"

text \<open>\<open>ev.get(k)\<close> used as a condition: present and non-empty.\<close>

definition truthy_get :: "evidence \<Rightarrow> string \<Rightarrow> bool" where
  "truthy_get ev k = (case ev k of None \<Rightarrow> False | Some v \<Rightarrow> v \<noteq> [])"

record verification =
  vr_verdict :: string
  vr_confidence :: real
  vr_explanation :: string
  vr_citations :: "string list"

definition supporting_words :: "string list" where
  "supporting_words = [''confirm'', ''verify'', ''true'', ''accurate'', ''correct'', ''valid'']"

definition contradicting_words :: "string list" where
  "contradicting_words =
     [''false'', ''debunk'', ''disprove'', ''incorrect'', ''invalid'', ''misleading'']"

definition ev_snippet :: "evidence \<Rightarrow> string" where
  "ev_snippet ev =
     (let s = get_default ev ''snippet'' '''' in if s \<noteq> [] then s else get_default ev ''text'' '''')"

definition claim_keywords_of :: "string \<Rightarrow> string list" where
  "claim_keywords_of claim_lower = filter (\<lambda>word. 4 < length word) (split claim_lower)"

text \<open>
  The state of the loop over the evidence: \<open>supporting_evidence\<close>,
  \<open>contradicting_evidence\<close> and \<open>evidence_snippets\<close>.
\<close>

record analysis =
  supporting_evidence :: real
  contradicting_evidence :: real
  evidence_snippets :: "string list"

definition analyse_step :: "string \<Rightarrow> analysis \<Rightarrow> evidence \<Rightarrow> analysis" where
  "analyse_step claim_lower st ev =
     (let snippet = ev_snippet ev;
          snippet_lower = lower snippet;
          claim_keywords = claim_keywords_of claim_lower
      in if list_ex (contains snippet_lower) claim_keywords then
           let st1 =
                 (if list_ex (contains snippet_lower) supporting_words
                  then st\<lparr>supporting_evidence := supporting_evidence st + 1\<rparr>
                  else if list_ex (contains snippet_lower) contradicting_words
                  then st\<lparr>contradicting_evidence := contradicting_evidence st + 1\<rparr>
                  else st\<lparr>supporting_evidence := supporting_evidence st + 0.5\<rparr>)
           in if length (evidence_snippets st1) < 2
              then st1\<lparr>evidence_snippets := evidence_snippets st1 @
                     [if 150 < length snippet then take 150 snippet @ ''...'' else snippet]\<rparr>
              else st1
         else st)"

definition analyse_evidence :: "string \<Rightarrow> evidence list \<Rightarrow> analysis" where
  "analyse_evidence claim_lower evidence =
     foldl (analyse_step claim_lower)
       \<lparr>supporting_evidence = 0, contradicting_evidence = 0, evidence_snippets = []\<rparr> evidence"

definition false_indicators :: "string list" where
  "false_indicators =
     [''never happened'', ''fake'', ''hoax'', ''conspiracy'', ''false'', ''not true'', ''debunked'']"

definition true_indicators :: "string list" where
  "true_indicators =
     [''confirmed'', ''verified'', ''proven'', ''fact'', ''true'', ''accurate'', ''established'']"

definition misleading_indicators :: "string list" where
  "misleading_indicators =
     [''partially'', ''somewhat'', ''misleading'', ''out of context'', ''exaggerated'']"

definition count_indicators :: "string list \<Rightarrow> string \<Rightarrow> nat" where
  "count_indicators indicators claim_lower = length (filter (contains claim_lower) indicators)"

text \<open>The numbered snippet lines: \<open>enumerate(evidence_snippets, 1)\<close>.\<close>

fun numbered :: "nat \<Rightarrow> string list \<Rightarrow> string list" where
  "numbered idx [] = []"
| "numbered idx (snippet # rest) = (str_of_nat idx @ ''. '' @ snippet) # numbered (idx + 1) rest"

text \<open>The citations: the URL, else the title, of each of the first five items.\<close>

fun citations_of :: "evidence list \<Rightarrow> string list" where
  "citations_of [] = []"
| "citations_of (ev # rest) =
     (if truthy_get ev ''url'' then get_default ev ''url'' '''' # citations_of rest
      else if truthy_get ev ''title'' then get_default ev ''title'' '''' # citations_of rest
      else citations_of rest)"

definition rule_based_verify_claim :: "string \<Rightarrow> evidence list \<Rightarrow> verification" where
  "rule_based_verify_claim claim evidence =
     (let claim_lower = lower claim;
          evidence_count = length evidence;
          web_sources = length (filter (\<lambda>e. e ''type'' = Some ''web'') evidence);
          kb_sources = length (filter (\<lambda>e. e ''type'' = Some ''kb'') evidence);
          st = analyse_evidence claim_lower evidence;
          supporting = supporting_evidence st;
          contradicting = contradicting_evidence st;
          false_count = count_indicators false_indicators claim_lower;
          true_count = count_indicators true_indicators claim_lower;
          misleading_count = count_indicators misleading_indicators claim_lower;
          citations = citations_of (take 5 evidence)
      in if evidence_count = 0 then
           \<lparr>vr_verdict = ''unverified'', vr_confidence = 0.2,
            vr_explanation = ''No evidence sources found to verify this claim. Web search and Knowledge Base retrieval returned no results.'',
            vr_citations = citations\<rparr>
         else
           let parts0 =
                 [''Analyzed '' @ str_of_nat evidence_count @ '' evidence source(s)'']
                 @ (if 0 < web_sources then [str_of_nat web_sources @ '' web source(s)''] else [])
                 @ (if 0 < kb_sources
                    then [str_of_nat kb_sources @ '' knowledge base document(s)''] else []);
               (verdict, confidence, part) =
                 (if contradicting < supporting \<and> 0 < supporting then
                    (''true'',
                     min 0.75 (0.5 + supporting * 0.1 + real evidence_count * 0.05),
                     ''Evidence supports this claim ('' @ str_of_nat (nat \<lfloor>supporting\<rfloor>)
                       @ '' supporting source(s))'')
                  else if supporting < contradicting \<and> 0 < contradicting then
                    (''false'',
                     min 0.75 (0.5 + contradicting * 0.1 + real evidence_count * 0.05),
                     ''Evidence contradicts this claim ('' @ str_of_nat (nat \<lfloor>contradicting\<rfloor>)
                       @ '' contradicting source(s))'')
                  else if true_count < false_count \<and> 0 < false_count then
                    (''false'', min 0.7 (0.4 + real evidence_count * 0.1),
                     ''Keyword analysis suggests this claim is false'')
                  else if false_count < true_count \<and> 0 < true_count then
                    (''true'', min 0.7 (0.4 + real evidence_count * 0.1),
                     ''Keyword analysis suggests this claim is true'')
                  else if 0 < misleading_count then
                    (''misleading'', min 0.65 (0.35 + real evidence_count * 0.1),
                     ''This claim may be misleading or require additional context'')
                  else
                    (''unverified'', min 0.6 (0.3 + real evidence_count * 0.05),
                     ''Insufficient evidence to determine veracity''));
               parts1 = parts0 @ [part];
               parts2 =
                 (if evidence_snippets st \<noteq> []
                  then parts1 @ [nl @ nl @ ''Relevant evidence:'']
                       @ numbered 1 (evidence_snippets st)
                  else parts1)
           in \<lparr>vr_verdict = verdict, vr_confidence = confidence,
               vr_explanation = join ''. '' parts2, vr_citations = citations\<rparr>)"

section \<open>llm.py: the generative backend and \<open>verify_claim\<close>\<close>

text \<open>
  The value of a parsed JSON document, as \<open>json.loads\<close> builds it. A dict is the list of
  its items, each key once.
\<close>

datatype json =
  JNull | JBool bool | JInt int | JFloat real | JStr string
| JList "json list" | JDict "(string \<times> json) list"

text \<open>\<open>result.get(key, default)\<close>: only a dict has \<open>get\<close>.\<close>

definition dict_get :: "json \<Rightarrow> string \<Rightarrow> json \<Rightarrow> py_error + json" where
  "dict_get result k d =
     (case result of
        JDict kvs \<Rightarrow> Inr (case map_of kvs k of None \<Rightarrow> d | Some v \<Rightarrow> v)
      | _ \<Rightarrow> Inl AttributeError)"

text \<open>
  The two library functions the service calls on text: \<open>json.loads\<close> and the parsing of a
  string by \<open>float\<close>. They are parameters of the model.
\<close>

record runtime =
  json_loads :: "string \<Rightarrow> py_error + json"
  float_of_str :: "string \<Rightarrow> py_error + real"

text \<open>\<open>float(x)\<close>. An integer too large for a double raises \<open>OverflowError\<close>.\<close>

definition py_float :: "runtime \<Rightarrow> json \<Rightarrow> py_error + real" where
  "py_float rt x =
     (case x of
        JNull \<Rightarrow> Inl TypeError
      | JBool b \<Rightarrow> Inr (if b then 1 else 0)
      | JInt i \<Rightarrow> (if \<bar>i\<bar> < 2 ^ 1024 - 2 ^ 970 then Inr (real_of_int i) else Inl OverflowError)
      | JFloat r \<Rightarrow> Inr r
      | JStr s \<Rightarrow> float_of_str rt s
      | JList xs \<Rightarrow> Inl TypeError
      | JDict kvs \<Rightarrow> Inl TypeError)"

text \<open>
  The service: its defaults, and the two HTTP tiers \<open>_call_openai_api\<close> and
  \<open>_call_completion_api\<close>, each of which returns whatever the backend's reply holds or
  raises.
\<close>

record llm_service =
  svc_temperature :: real
  svc_max_tokens :: nat
  svc_strict_json :: bool
  call_openai_api :: "string \<Rightarrow> real \<Rightarrow> nat \<Rightarrow> bool \<Rightarrow> py_error + json"
  call_completion_api :: "string \<Rightarrow> real \<Rightarrow> nat \<Rightarrow> py_error + json"

text \<open>The tiers \<open>generate\<close> goes through, logged in the order they are entered.\<close>

datatype tier = OpenAITier | CompletionTier | RuleBasedTier

definition format_json_prompt :: "string \<Rightarrow> string" where
  "format_json_prompt prompt =
     prompt @ nl @ nl
     @ ''Important: Respond with valid JSON only. Do not include any text before or after the JSON.''"

definition fallback_false_indicators :: "string list" where
  "fallback_false_indicators =
     [''never happened'', ''fake'', ''hoax'', ''conspiracy'', ''false'', ''not true'']"

definition fallback_true_indicators :: "string list" where
  "fallback_true_indicators =
     [''confirmed'', ''verified'', ''proven'', ''fact'', ''true'', ''accurate'']"

definition fallback_misleading_indicators :: "string list" where
  "fallback_misleading_indicators =
     [''partially'', ''somewhat'', ''misleading'', ''out of context'']"

text \<open>
  \<open>json.dumps\<close> of the fallback's dict, written out: the three fields and the empty
  citation list. The confidence is passed as the text \<open>json.dumps\<close> prints for it.
\<close>

definition dumps_fallback :: "string \<Rightarrow> string \<Rightarrow> string \<Rightarrow> string" where
  \<open>dumps_fallback verdict confidence explanation =
     ''{"verdict": "'' @ verdict @ ''", "confidence": '' @ confidence
     @ '', "explanation": "'' @ explanation @ ''", "citations": []}''\<close>

definition rule_based_fallback :: "string \<Rightarrow> string" where
  "rule_based_fallback prompt =
     (let claim_lower = lower prompt;
          false_count = count_indicators fallback_false_indicators claim_lower;
          true_count = count_indicators fallback_true_indicators claim_lower;
          misleading_count = count_indicators fallback_misleading_indicators claim_lower
      in if true_count < false_count \<and> 0 < false_count then
           dumps_fallback ''false'' ''0.6''
             ''Based on keyword analysis, this claim appears to be false. However, this is a fallback analysis - for accurate verification, please set up a local LLM endpoint.''
         else if false_count < true_count \<and> 0 < true_count then
           dumps_fallback ''true'' ''0.6''
             ''Based on keyword analysis, this claim appears to be true. However, this is a fallback analysis - for accurate verification, please set up a local LLM endpoint.''
         else if 0 < misleading_count then
           dumps_fallback ''misleading'' ''0.55''
             ''Based on keyword analysis, this claim may be misleading. However, this is a fallback analysis - for accurate verification, please set up a local LLM endpoint.''
         else
           dumps_fallback ''unverified'' ''0.5''
             ''Unable to verify using LLM. Please ensure a local LLM endpoint is running (e.g., LocalAI, llama.cpp, or TextGen WebUI) at the configured endpoint.'')"

text \<open>
  \<open>generate\<close>: each tier is entered only after the one before it has raised; the last one
  cannot raise. The result is the log of the tiers entered and the value returned.
\<close>

definition generate ::
  "llm_service \<Rightarrow> string \<Rightarrow> real option \<Rightarrow> nat option \<Rightarrow> bool option \<Rightarrow> tier list \<times> json" where
  "generate svc prompt temperature max_tokens strict_json =
     (let temp = (case temperature of None \<Rightarrow> svc_temperature svc | Some t \<Rightarrow> t);
          tokens = (case max_tokens of None \<Rightarrow> svc_max_tokens svc
                    | Some n \<Rightarrow> if n = 0 then svc_max_tokens svc else n);
          json_mode = (case strict_json of None \<Rightarrow> svc_strict_json svc | Some b \<Rightarrow> b);
          prompt' = (if json_mode then format_json_prompt prompt else prompt)
      in case call_openai_api svc prompt' temp tokens json_mode of
           Inr response \<Rightarrow> ([OpenAITier], response)
         | Inl e \<Rightarrow>
             (case call_completion_api svc prompt' temp tokens of
                Inr response \<Rightarrow> ([OpenAITier, CompletionTier], response)
              | Inl e2 \<Rightarrow>
                  ([OpenAITier, CompletionTier, RuleBasedTier],
                   JStr (rule_based_fallback prompt'))))"

text \<open>The evidence block of the prompt: the first five items, numbered from 1.\<close>

fun evidence_lines :: "nat \<Rightarrow> evidence list \<Rightarrow> string list" where
  "evidence_lines idx [] = []"
| "evidence_lines idx (ev # rest) =
     (''Source '' @ str_of_nat (idx + 1) @ '': '' @ get_default ev ''title'' ''Unknown'' @ nl
      @ get_default ev ''snippet'' (get_default ev ''text'' '''') @ nl)
     # evidence_lines (idx + 1) rest"

definition verify_prompt :: "string \<Rightarrow> evidence list \<Rightarrow> string" where
  \<open>verify_prompt claim evidence =
     (let evidence_text = join nl (evidence_lines 0 (take 5 evidence))
      in join nl
           [''You are a fact-checking expert. Analyze the following claim and evidence to determine its veracity.'',
            '''',
            ''Claim: '' @ claim,
            '''',
            ''Evidence:'',
            evidence_text,
            '''',
            ''Provide your analysis in JSON format with the following structure:'',
            ''{'',
            ''  "verdict": "true" | "false" | "misleading" | "unverified",'',
            ''  "confidence": 0.0-1.0,'',
            ''  "explanation": "Detailed explanation of your reasoning",'',
            ''  "citations": ["source1", "source2"]'',
            ''}'',
            '''',
            ''JSON:''])\<close>

text \<open>
  The result of \<open>verify_claim\<close>. Only the confidence is coerced; the other three fields
  are the values found in the backend's JSON, or the defaults.
\<close>

record verify_result =
  res_verdict :: json
  res_confidence :: real
  res_explanation :: json
  res_citations :: json

definition of_verification :: "verification \<Rightarrow> verify_result" where
  "of_verification v =
     \<lparr>res_verdict = JStr (vr_verdict v), res_confidence = vr_confidence v,
      res_explanation = JStr (vr_explanation v),
      res_citations = JList (map JStr (vr_citations v))\<rparr>"

text \<open>
  The body of the \<open>try\<close> after the call of \<open>generate\<close>: trimming (only a \<open>str\<close> has
  \<open>strip\<close>), cutting out the span from the first \<open>{\<close> to the last \<open>}\<close>, parsing, and
  building the result.
\<close>

definition json_span :: "string \<Rightarrow> string" where
  "json_span text =
     (let response_clean = strip text
      in if CHR ''{'' \<in> set response_clean \<and> CHR ''}'' \<in> set response_clean
         then slice response_clean (find_char response_clean CHR ''{'')
                (rfind_char response_clean CHR ''}'' + 1)
         else response_clean)"

definition build_result :: "runtime \<Rightarrow> json \<Rightarrow> py_error + verify_result" where
  "build_result rt result =
     (case dict_get result ''verdict'' (JStr ''unverified'') of
        Inl e \<Rightarrow> Inl e
      | Inr verdict \<Rightarrow>
          (case dict_get result ''confidence'' (JFloat 0.5) of
             Inl e \<Rightarrow> Inl e
           | Inr c \<Rightarrow>
               (case py_float rt c of
                  Inl e \<Rightarrow> Inl e
                | Inr confidence \<Rightarrow>
                    (case dict_get result ''explanation'' (JStr '''') of
                       Inl e \<Rightarrow> Inl e
                     | Inr explanation \<Rightarrow>
                         (case dict_get result ''citations'' (JList []) of
                            Inl e \<Rightarrow> Inl e
                          | Inr citations \<Rightarrow>
                              Inr \<lparr>res_verdict = verdict, res_confidence = confidence,
                                   res_explanation = explanation,
                                   res_citations = citations\<rparr>)))))"

definition parse_response :: "runtime \<Rightarrow> json \<Rightarrow> py_error + verify_result" where
  "parse_response rt response =
     (case response of
        JStr text \<Rightarrow>
          (case json_loads rt (json_span text) of
             Inl e \<Rightarrow> Inl e
           | Inr result \<Rightarrow> build_result rt result)
      | _ \<Rightarrow> Inl AttributeError)"

text \<open>
  The one call of \<open>generate\<close> in \<open>verify_claim\<close>:
  \<open>self.generate(prompt=prompt, temperature=0.3, strict_json=True)\<close>.
\<close>

definition verify_generate :: "llm_service \<Rightarrow> string \<Rightarrow> evidence list \<Rightarrow> tier list \<times> json" where
  "verify_generate svc claim evidence =
     generate svc (verify_prompt claim evidence) (Some 0.3) None (Some True)"

text \<open>
  \<open>verify_claim\<close>: both handlers (\<open>JSONDecodeError\<close> and \<open>Exception\<close>) return the
  rule-based verdict. The argument \<open>mode\<close> is never read. The result carries the log of
  the tiers that the call of \<open>generate\<close> entered.
\<close>

definition verify_claim ::
  "llm_service \<Rightarrow> runtime \<Rightarrow> string \<Rightarrow> evidence list \<Rightarrow> tier list \<times> (py_error + verify_result)" where
  "verify_claim svc rt claim evidence =
     (let (tiers, response) = verify_generate svc claim evidence
      in (tiers,
          case parse_response rt response of
            Inr result \<Rightarrow> Inr result
          | Inl e \<Rightarrow> Inr (of_verification (rule_based_verify_claim claim evidence))))"

text \<open>
  A service with the defaults of \<open>config.py\<close> whose two HTTP tiers give fixed outcomes,
  and a runtime whose \<open>json.loads\<close> accepts one document: the inputs of the examples.
\<close>

definition canned_service :: "py_error + json \<Rightarrow> py_error + json \<Rightarrow> llm_service" where
  "canned_service openai completion =
     \<lparr>svc_temperature = 0.7, svc_max_tokens = 2048, svc_strict_json = True,
      call_openai_api = (\<lambda>prompt temperature max_tokens json_mode. openai),
      call_completion_api = (\<lambda>prompt temperature max_tokens. completion)\<rparr>"

definition canned_runtime :: "string \<Rightarrow> json \<Rightarrow> runtime" where
  "canned_runtime document parsed =
     \<lparr>json_loads = (\<lambda>s. if s = document then Inr parsed else Inl JSONDecodeError),
      float_of_str = (\<lambda>s. Inl ValueError)\<rparr>"

section \<open>credibility_analyzer.py\<close>

text \<open>\<open>s.replace(old, new)\<close>: the non-overlapping occurrences, from the left.\<close>

function replace :: "string \<Rightarrow> string \<Rightarrow> string \<Rightarrow> string" where
  "replace [] old new = (if old = [] then new else [])"
| "replace (c # cs) old new =
     (if old = [] then new @ c # replace cs old new
      else if prefix old (c # cs) then new @ replace (drop (length old) (c # cs)) old new
      else c # replace cs old new)"
  by pat_completeness auto
termination by (relation "measure (\<lambda>(s, old, new). length s)") auto

definition fact_check_domains :: "string list" where
  "fact_check_domains =
     [''factcheck.org'', ''snopes.com'', ''politifact.com'',
      ''fullfact.org'', ''checkyourfact.com'', ''leadstories.com'']"

definition unreliable_domains :: "string list" where
  "unreliable_domains = [''infowars.com'', ''naturalnews.com'']"

definition academic_domains :: "string list" where
  "academic_domains = [''.edu'', ''.ac.uk'', ''.edu.au'']"

text \<open>
  The metrics dict of \<open>analyze_source\<close>, with the three keys that
  \<open>_fetch_domain_metadata\<close> adds (all \<open>None\<close>).
\<close>

record metrics =
  m_domain :: string
  m_url :: string
  m_domain_age :: string
  m_trust_score :: real
  m_popularity :: string
  m_bias :: string
  m_fact_check_history :: "string list"
  m_is_fact_checker :: bool
  m_is_unreliable :: bool
  m_is_academic :: bool
  m_tld :: string
  m_popularity_rank :: "nat option"
  m_bias_rating :: "string option"
  m_country :: "string option"

text \<open>What \<open>analyze_source\<close> returns: the metrics, or the error dict of its handler.\<close>

datatype source_analysis =
  Analysed metrics
| Failed (failed_domain: string) (failed_url: string) (failed_trust_score: real)
    (failed_error: py_error)

definition estimate_domain_age :: "string \<Rightarrow> string" where
  "estimate_domain_age domain =
     (if suffix ''.edu'' domain \<or> suffix ''.gov'' domain then ''established''
      else if suffix ''.org'' domain then ''likely_established''
      else ''unknown'')"

definition calculate_trust_score :: "metrics \<Rightarrow> real" where
  "calculate_trust_score m =
     (let score0 = 0.5;
          score1 = (if m_is_fact_checker m then score0 + 0.3 else score0);
          score2 = (if m_is_academic m then score1 + 0.2 else score1);
          score3 = (if m_is_unreliable m then score2 - 0.4 else score2);
          score4 = (if m_domain_age m = ''established'' then score3 + 0.1 else score3)
      in max 0 (min 1 score4))"

text \<open>The dict literal \<open>metrics = {...}\<close> of \<open>analyze_source\<close>, before the score is set.\<close>

definition basic_metrics :: "string \<Rightarrow> string \<Rightarrow> metrics" where
  "basic_metrics netloc url =
     (let domain = lower (replace netloc ''www.'' '''')
      in \<lparr>m_domain = domain, m_url = url,
          m_domain_age = estimate_domain_age domain,
          m_trust_score = 0.5,
          m_popularity = ''unknown'', m_bias = ''unknown'',
          m_fact_check_history = [],
          m_is_fact_checker = (domain \<in> set fact_check_domains),
          m_is_unreliable = (domain \<in> set unreliable_domains),
          m_is_academic = list_ex (\<lambda>ext. suffix ext domain) academic_domains,
          m_tld = (if CHR ''.'' \<in> set netloc
                   then rev (takeWhile (\<lambda>c. c \<noteq> CHR ''.'') (rev netloc)) else ''''),
          m_popularity_rank = None, m_bias_rating = None, m_country = None\<rparr>)"

text \<open>
  \<open>urlparse\<close> is the standard library's; the analyzer reads only \<open>netloc\<close> of its result, so
  it is a parameter that gives the netloc of a URL or raises. The update with the result
  of \<open>_fetch_domain_metadata\<close> only adds the three \<open>None\<close> entries.
\<close>

definition analyze_source :: "(string \<Rightarrow> py_error + string) \<Rightarrow> string \<Rightarrow> source_analysis" where
  "analyze_source urlparse_netloc url =
     (case urlparse_netloc url of
        Inl e \<Rightarrow> Failed ''unknown'' url 0 e
      | Inr netloc \<Rightarrow>
          let m = basic_metrics netloc url
          in Analysed (m\<lparr>m_trust_score := calculate_trust_score m\<rparr>))"

text \<open>\<open>a.get("trust_score", 0.0)\<close> on a result of \<open>analyze_source\<close>.\<close>

definition trust_score_of :: "source_analysis \<Rightarrow> real" where
  "trust_score_of a = (case a of Analysed m \<Rightarrow> m_trust_score m | Failed d u t e \<Rightarrow> t)"

section \<open>claim_extractor.py\<close>

text \<open>A claim dict: \<open>id\<close>, \<open>claim\<close>, \<open>confidence\<close> and, once fused, \<open>method\<close>.\<close>

record claim =
  claim_id :: nat
  claim_text :: string
  claim_confidence :: real
  claim_method :: "string option"

subsection \<open>The spaCy strategy\<close>

text \<open>
  What the strategy reads of a parsed document: its sentences, each with its text and,
  for every token, the dependency label and the part of speech. The pipeline
  \<open>self.nlp\<close> is absent (\<open>None\<close>) or a function that may raise.
\<close>

record token =
  tok_dep :: string
  tok_pos :: string

record sentence =
  sent_text :: string
  sent_tokens :: "token list"

type_synonym nlp = "(string \<Rightarrow> py_error + sentence list) option"

definition skip_patterns :: "string list" where
  "skip_patterns =
     [''according to'', ''as reported by'', ''sources say'', ''it is said'',
      ''some believe'', ''many think'', ''people say'']"

definition claim_indicators :: "string list" where
  "claim_indicators =
     [''is'', ''are'', ''was'', ''were'', ''will be'', ''has been'', ''have been'',
      ''causes'', ''caused'', ''leads to'', ''results in'', ''means'',
      ''contains'', ''includes'', ''consists of'', ''comprises'']"

definition spacy_step :: "claim list \<Rightarrow> sentence \<Rightarrow> claim list" where
  "spacy_step claims sent =
     (let text = strip (sent_text sent) in
      if length text < 15 then claims
      else if suffix ''?'' text then claims
      else if \<not> list_ex (\<lambda>t. tok_dep t = ''ROOT'' \<and> tok_pos t \<in> set [''VERB'', ''AUX''])
                   (sent_tokens sent)
      then claims
      else
        let sent_lower = lower text in
        if list_ex (contains sent_lower) skip_patterns then claims
        else
          let confidence = (if list_ex (contains sent_lower) claim_indicators then 0.8 else 0.7)
          in if list_ex (\<lambda>t. tok_dep t \<in> set [''nsubj'', ''nsubjpass'', ''csubj''])
                  (sent_tokens sent)
             then claims @ [\<lparr>claim_id = length claims + 1, claim_text = text,
                              claim_confidence = confidence, claim_method = None\<rparr>]
             else claims)"

definition extract_with_spacy :: "nlp \<Rightarrow> string \<Rightarrow> py_error + claim list" where
  "extract_with_spacy nlp text =
     (case nlp of
        None \<Rightarrow> Inr []
      | Some parse \<Rightarrow>
          (case parse text of
             Inl e \<Rightarrow> Inl e
           | Inr sents \<Rightarrow> Inr (foldl spacy_step [] sents)))"

subsection \<open>The LLM strategy\<close>

text \<open>
  A result of the retriever's \<open>search\<close>: \<open>result['text']\<close> raises when the key is absent;
  the title is \<open>result.get('metadata', {}).get('title')\<close>.
\<close>

record rag_result =
  rr_text :: "string option"
  rr_title :: "string option"

type_synonym rag_retriever = "(string \<Rightarrow> nat \<Rightarrow> py_error + rag_result list) option"

text \<open>
  The loop that appends to \<open>context\<close>. An exception in the middle leaves the context
  built so far, since the handler only prints.
\<close>

fun rag_context_loop :: "nat \<Rightarrow> string \<Rightarrow> rag_result list \<Rightarrow> string" where
  "rag_context_loop idx context [] = context"
| "rag_context_loop idx context (result # rest) =
     (case rr_text result of
        None \<Rightarrow> context
      | Some t \<Rightarrow>
          let context1 = context @ str_of_nat idx @ ''. '' @ take 200 t @ ''...'' @ nl;
              context2 =
                (case rr_title result of
                   None \<Rightarrow> context1
                 | Some title \<Rightarrow>
                     if title \<noteq> [] then context1 @ ''   Source: '' @ title @ nl
                     else context1)
          in rag_context_loop (idx + 1) context2 rest)"

definition rag_context :: "rag_retriever \<Rightarrow> string \<Rightarrow> string" where
  "rag_context active_rag_retriever text =
     (case active_rag_retriever of
        None \<Rightarrow> ''''
      | Some search \<Rightarrow>
          (case search text 3 of
             Inl e \<Rightarrow> ''''
           | Inr rag_results \<Rightarrow>
               if rag_results \<noteq> []
               then rag_context_loop 1 (nl @ nl @ ''Relevant Knowledge Base Context:'' @ nl)
                      rag_results
               else ''''))"

definition extraction_prompt :: "string \<Rightarrow> string \<Rightarrow> string" where
  \<open>extraction_prompt context text =
     join nl
       [''Extract all factual claims from the following text. Return a JSON array of claims.'',
        '''',
        context,
        '''',
        ''Text to Analyze:'',
        text,
        '''',
        ''Return format:'',
        ''['',
        ''  {"id": 1, "claim": "claim text here"},'',
        ''  {"id": 2, "claim": "another claim"}'',
        '']'',
        '''',
        ''Only extract factual, verifiable claims. Ignore questions, opinions, and statements without factual content.'',
        ''Use the knowledge base context above to better understand domain-specific terms and concepts.'',
        ''JSON:'']\<close>

text \<open>
  The span from the first \<open>[\<close> to the last \<open>]\<close>, cut out only when the reply holds both
  braces and the span is not empty.
\<close>

definition json_array_span :: "string \<Rightarrow> string" where
  "json_array_span text =
     (let response_clean = strip text
      in if CHR ''{'' \<in> set response_clean \<and> CHR ''}'' \<in> set response_clean
         then let start = find_char response_clean CHR ''['';
                  end' = rfind_char response_clean CHR '']'' + 1
              in if 0 \<le> start \<and> start < end' then slice response_clean start end'
                 else response_clean
         else response_clean)"

text \<open>
  The list comprehension over \<open>enumerate(claims_data)\<close>: \<open>claim.get\<close> raises on a value
  that is not a dict, and \<open>.strip()\<close> on a value that is not a string.
\<close>

fun llm_items :: "nat \<Rightarrow> real \<Rightarrow> string \<Rightarrow> json list \<Rightarrow> py_error + claim list" where
  "llm_items idx base_confidence method [] = Inr []"
| "llm_items idx base_confidence method (item # rest) =
     (case dict_get item ''claim'' (JStr '''') of
        Inl e \<Rightarrow> Inl e
      | Inr v \<Rightarrow>
          (case v of
             JStr s \<Rightarrow>
               (case llm_items (idx + 1) base_confidence method rest of
                  Inl e \<Rightarrow> Inl e
                | Inr claims \<Rightarrow>
                    Inr (if strip s \<noteq> []
                         then \<lparr>claim_id = idx + 1, claim_text = s,
                               claim_confidence = base_confidence,
                               claim_method = Some method\<rparr> # claims
                         else claims))
           | _ \<Rightarrow> Inl AttributeError))"

definition llm_parse ::
  "runtime \<Rightarrow> bool \<Rightarrow> json \<Rightarrow> py_error + claim list" where
  "llm_parse rt with_context response =
     (case response of
        JStr text \<Rightarrow>
          (case json_loads rt (json_array_span text) of
             Inl e \<Rightarrow> Inl e
           | Inr parsed \<Rightarrow>
               let claims_data =
                     (case parsed of JList items \<Rightarrow> items | JDict kvs \<Rightarrow> [parsed] | _ \<Rightarrow> []);
                   base_confidence = (if with_context then 0.85 else 0.8);
                   method = (if with_context then ''llm_rag'' else ''llm'')
               in llm_items 0 base_confidence method claims_data)
      | _ \<Rightarrow> Inl AttributeError)"

definition extract_with_llm ::
  "llm_service option \<Rightarrow> runtime \<Rightarrow> rag_retriever \<Rightarrow> string \<Rightarrow> claim list" where
  "extract_with_llm llm_service rt active_rag_retriever text =
     (case llm_service of
        None \<Rightarrow> []
      | Some svc \<Rightarrow>
          let context = rag_context active_rag_retriever text;
              prompt = extraction_prompt context text;
              (tiers, response) = generate svc prompt (Some 0.3) (Some 1000) (Some True)
          in case llm_parse rt (active_rag_retriever \<noteq> None \<and> context \<noteq> []) response of
               Inl e \<Rightarrow> []
             | Inr claims \<Rightarrow> claims)"

subsection \<open>The fallback strategy\<close>

text \<open>\<open>re.split(r'[.!?]+', text)\<close>.\<close>

definition is_terminator :: "char \<Rightarrow> bool" where
  "is_terminator c = (c = CHR ''.'' \<or> c = CHR ''!'' \<or> c = CHR ''?'')"

function re_split_acc :: "string \<Rightarrow> string \<Rightarrow> string list" where
  "re_split_acc cur [] = [cur]"
| "re_split_acc cur (c # cs) =
     (if is_terminator c then cur # re_split_acc [] (dropWhile is_terminator cs)
      else re_split_acc (cur @ [c]) cs)"
  by pat_completeness auto
termination
  by (relation "measure (\<lambda>(cur, s). length s)")
    (auto simp: le_imp_less_Suc length_dropWhile_le)

definition re_split :: "string \<Rightarrow> string list" where
  "re_split text = re_split_acc [] text"

definition simple_keywords :: "string list" where
  "simple_keywords = [''is'', ''are'', ''was'', ''were'', ''will'', ''can'', ''has'', ''have'']"

fun simple_loop :: "nat \<Rightarrow> string list \<Rightarrow> claim list" where
  "simple_loop idx [] = []"
| "simple_loop idx (piece # rest) =
     (let sentence = strip piece
      in if 20 < length sentence \<and> list_ex (contains (lower sentence)) simple_keywords
         then \<lparr>claim_id = idx + 1, claim_text = sentence, claim_confidence = 0.6,
               claim_method = None\<rparr> # simple_loop (idx + 1) rest
         else simple_loop (idx + 1) rest)"

definition extract_simple :: "string \<Rightarrow> claim list" where
  "extract_simple text = simple_loop 0 (re_split text)"

subsection \<open>Fusion\<close>

text \<open>
  The state of \<open>extract\<close>: \<open>all_claims\<close> and the set \<open>claim_texts\<close>, of which only
  membership and an existence test are used, so a list stands for it.
\<close>

type_synonym fusion = "claim list \<times> string list"

definition claim_key :: "claim \<Rightarrow> string" where
  "claim_key c = lower (strip (claim_text c))"

definition add_claim :: "fusion \<Rightarrow> claim \<Rightarrow> string \<Rightarrow> fusion" where
  "add_claim st c method =
     (case st of (all_claims, claim_texts) \<Rightarrow>
        (all_claims @ [\<lparr>claim_id = length all_claims + 1, claim_text = claim_text c,
                        claim_confidence = claim_confidence c, claim_method = Some method\<rparr>],
         claim_texts @ [claim_key c]))"

definition add_spacy :: "fusion \<Rightarrow> claim \<Rightarrow> fusion" where
  "add_spacy st c =
     (if claim_key c \<notin> set (snd st) then add_claim st c ''spacy'' else st)"

definition is_duplicate :: "string list \<Rightarrow> string \<Rightarrow> bool" where
  "is_duplicate claim_texts t =
     list_ex (\<lambda>existing_text.
        (contains existing_text t \<or> contains t existing_text)
        \<and> 20 < length t \<and> 20 < length existing_text) claim_texts"

definition add_llm :: "fusion \<Rightarrow> claim \<Rightarrow> fusion" where
  "add_llm st c =
     (if \<not> is_duplicate (snd st) (claim_key c) \<and> claim_key c \<notin> set (snd st)
      then add_claim st c (case claim_method c of None \<Rightarrow> ''llm'' | Some m \<Rightarrow> m)
      else st)"

definition add_simple :: "fusion \<Rightarrow> claim \<Rightarrow> fusion" where
  "add_simple st c =
     (if \<not> is_duplicate (snd st) (claim_key c) \<and> claim_key c \<notin> set (snd st)
      then add_claim st c ''fallback''
      else st)"

fun renumber :: "nat \<Rightarrow> claim list \<Rightarrow> claim list" where
  "renumber idx [] = []"
| "renumber idx (c # cs) = c\<lparr>claim_id := idx\<rparr> # renumber (idx + 1) cs"

text \<open>
  The extractor: \<open>use_llm\<close>, \<open>llm_service\<close>, \<open>rag_retriever\<close> and \<open>nlp\<close> are its attributes.
  \<open>list.sort(key=..., reverse=True)\<close> is stable, as \<open>sort_key\<close> on the negated key is.
\<close>

record claim_extractor =
  use_llm :: bool
  ext_llm_service :: "llm_service option"
  ext_rag_retriever :: rag_retriever
  ext_nlp :: nlp

definition "extract" :: "claim_extractor \<Rightarrow> runtime \<Rightarrow> string \<Rightarrow> claim list" where
  "extract self rt text =
     (if text = [] \<or> length (strip text) < 10 then []
      else
        let st0 = ([], []);
            st1 = (case extract_with_spacy (ext_nlp self) text of
                     Inl e \<Rightarrow> st0
                   | Inr spacy_claims \<Rightarrow> foldl add_spacy st0 spacy_claims);
            st2 = (if use_llm self \<and> ext_llm_service self \<noteq> None
                   then foldl add_llm st1
                          (extract_with_llm (ext_llm_service self) rt (ext_rag_retriever self) text)
                   else st1);
            st3 = foldl add_simple st2 (extract_simple text);
            all_claims = sort_key (\<lambda>c. - claim_confidence c) (fst st3)
        in renumber 1 all_claims)"

subsection \<open>The invariant of the fusion loops\<close>

text \<open>
  \<open>claim_texts\<close> holds exactly the keys of \<open>all_claims\<close>, no key occurs twice, and every
  confidence lies in \<open>[0, 1]\<close>.
\<close>

definition confidence_ok :: "claim \<Rightarrow> bool" where
  "confidence_ok c = (0 \<le> claim_confidence c \<and> claim_confidence c \<le> 1)"

definition fusion_inv :: "fusion \<Rightarrow> bool" where
  "fusion_inv st =
     (set (snd st) = set (map claim_key (fst st))
      \<and> distinct (map claim_key (fst st))
      \<and> list_all confidence_ok (fst st))"

section \<open>Properties of scoring.py\<close>

lemma count_verdict_map:
  "distinct K \<Longrightarrow>
   count_verdict (map (\<lambda>k. (k, f k)) K) v =
     (if v \<in> set K then map (\<lambda>k. (k, if k = v then f k + 1 else f k)) K
      else map (\<lambda>k. (k, f k)) K @ [(v, 1)])"
  by (induction K) auto

lemma verdict_counts_of_snoc:
  "verdict_counts_of (ns @ [v]) = count_verdict (verdict_counts_of ns) v"
  by (simp add: verdict_counts_of_def)

lemma verdict_counts_of_eq:
  "verdict_counts_of ns = map (\<lambda>k. (k, count_list ns k)) (rev (remdups (rev ns)))"
proof (induction ns rule: rev_induct)
  case Nil
  show ?case by (simp add: verdict_counts_of_def)
next
  case (snoc v ns)
  have d: "distinct (rev (remdups (rev ns)))" by simp
  show ?case
    by (auto simp: verdict_counts_of_snoc snoc.IH count_verdict_map [OF d])
qed

lemma takeWhile_all: "(\<And>x. x \<in> set xs \<Longrightarrow> P x) \<Longrightarrow> takeWhile P xs = xs"
  by (induction xs) auto

lemma takeWhile_first_occurrences:
  "set (takeWhile (\<lambda>x. x \<noteq> w) (rev (remdups (rev ns)))) = set (takeWhile (\<lambda>x. x \<noteq> w) ns)"
proof (induction ns rule: rev_induct)
  case Nil
  show ?case by simp
next
  case (snoc v ns)
  let ?K = "rev (remdups (rev ns))"
  let ?P = "\<lambda>x. x \<noteq> w"
  show ?case
  proof (cases "w \<in> set ns")
    case True
    then have "takeWhile ?P (ns @ [v]) = takeWhile ?P ns"
      by (simp add: takeWhile_append1)
    moreover from True have "w \<in> set ?K" by simp
    then have "takeWhile ?P (?K @ [v]) = takeWhile ?P ?K"
      by (simp add: takeWhile_append1)
    ultimately show ?thesis using snoc.IH by simp
  next
    case False
    then have a: "\<And>x. x \<in> set ns \<Longrightarrow> x \<noteq> w" by blast
    then have b: "\<And>x. x \<in> set ?K \<Longrightarrow> x \<noteq> w" by simp
    have r1: "takeWhile ?P (ns @ [v]) = ns @ takeWhile ?P [v]"
      using a by (rule takeWhile_append2)
    have r2: "takeWhile ?P (?K @ [v]) = ?K @ takeWhile ?P [v]"
      using b by (rule takeWhile_append2)
    have e2: "takeWhile ?P ?K = ?K"
      using b by (rule takeWhile_all)
    show ?thesis
    proof (cases "v \<in> set ns")
      case True
      then have k: "rev (remdups (rev (ns @ [v]))) = ?K" by simp
      show ?thesis unfolding k e2 r1 using True a [OF True] by auto
    next
      case False
      then have k: "rev (remdups (rev (ns @ [v]))) = ?K @ [v]" by simp
      show ?thesis unfolding k r2 r1 by simp
    qed
  qed
qed

lemma max_from_mem: "max_from b xs \<in> set (b # xs)"
  by (induction xs arbitrary: b) auto

lemma max_from_ge_best: "snd b \<le> snd (max_from b xs)"
proof (induction xs arbitrary: b)
  case Nil
  show ?case by simp
next
  case (Cons x xs)
  show ?case using Cons.IH [of x] Cons.IH [of b] by auto
qed

lemma max_from_ge: "x \<in> set (b # xs) \<Longrightarrow> snd x \<le> snd (max_from b xs)"
proof (induction xs arbitrary: b)
  case Nil
  then show ?case by simp
next
  case (Cons y ys)
  show ?case
  proof (cases "snd b < snd y")
    case True
    have "snd y \<le> snd (max_from y ys)" by (rule max_from_ge_best)
    with True Cons.prems Cons.IH [of y] show ?thesis by auto
  next
    case False
    have "snd b \<le> snd (max_from b ys)" by (rule max_from_ge_best)
    with False Cons.prems Cons.IH [of b] show ?thesis by auto
  qed
qed

lemma max_from_split:
  "\<exists>pre post. b # xs = pre @ max_from b xs # post \<and> (\<forall>z\<in>set pre. snd z < snd (max_from b xs))"
proof (induction xs arbitrary: b)
  case Nil
  have "[b] = [] @ max_from b [] # [] \<and> (\<forall>z\<in>set []. snd z < snd (max_from b []))" by simp
  then show ?case by blast
next
  case (Cons x xs)
  show ?case
  proof (cases "snd b < snd x")
    case True
    then have m: "max_from b (x # xs) = max_from x xs" by simp
    from Cons.IH [of x] obtain pre post where
      s: "x # xs = pre @ max_from x xs # post" and l: "\<forall>z\<in>set pre. snd z < snd (max_from x xs)"
      by blast
    have "snd x \<le> snd (max_from x xs)" by (rule max_from_ge_best)
    with True have "snd b < snd (max_from x xs)" by simp
    with l have l': "\<forall>z\<in>set (b # pre). snd z < snd (max_from x xs)" by simp
    from s have "b # (x # xs) = b # (pre @ max_from x xs # post)" by (rule arg_cong)
    then have "b # x # xs = (b # pre) @ max_from x xs # post" by (simp only: append_Cons)
    with l' show ?thesis unfolding m by blast
  next
    case False
    then have m: "max_from b (x # xs) = max_from b xs" by simp
    from Cons.IH [of b] obtain pre post where
      s: "b # xs = pre @ max_from b xs # post" and l: "\<forall>z\<in>set pre. snd z < snd (max_from b xs)"
      by blast
    show ?thesis
    proof (cases pre)
      case Nil
      have "max_from b xs = b" using s Nil by (metis append_Nil list.inject)
      then have "b # x # xs = [] @ max_from b xs # (x # xs) \<and>
          (\<forall>z\<in>set []. snd z < snd (max_from b xs))" by simp
      then show ?thesis unfolding m by blast
    next
      case (Cons p pre')
      with s have p: "p = b" and xs: "xs = pre' @ max_from b xs # post"
        by (metis append_Cons list.inject)+
      from l Cons p have "snd b < snd (max_from b xs)" by simp
      with False have "snd x < snd (max_from b xs)" by simp
      with l Cons p have l': "\<forall>z\<in>set (b # x # pre'). snd z < snd (max_from b xs)" by simp
      from xs have "b # x # xs = b # x # (pre' @ max_from b xs # post)" by (rule arg_cong)
      then have "b # x # xs = (b # x # pre') @ max_from b xs # post" by (simp only: append_Cons)
      with l' show ?thesis unfolding m by blast
    qed
  qed
qed

lemma max_from_first:
  assumes d: "distinct (map fst (b # xs))"
    and y: "y \<in> set (takeWhile (\<lambda>k. k \<noteq> fst (max_from b xs)) (map fst (b # xs)))"
    and z: "z \<in> set (b # xs)" "fst z = y"
  shows "snd z < snd (max_from b xs)"
proof -
  let ?r = "max_from b xs"
  from max_from_split [of b xs] obtain pre post where
    s: "b # xs = pre @ ?r # post" and l: "\<forall>z\<in>set pre. snd z < snd ?r"
    by blast
  have e: "map fst (b # xs) = map fst pre @ fst ?r # map fst post"
    by (subst s) simp
  from d have "distinct (map fst pre @ fst ?r # map fst post)" unfolding e .
  then have "set (map fst pre) \<inter> set (fst ?r # map fst post) = {}" by (metis distinct_append)
  then have "\<And>k. k \<in> set (map fst pre) \<Longrightarrow> k \<noteq> fst ?r"
    by (metis disjoint_iff list.set_intros(1))
  then have "takeWhile (\<lambda>k. k \<noteq> fst ?r) (map fst pre @ fst ?r # map fst post)
      = map fst pre @ takeWhile (\<lambda>k. k \<noteq> fst ?r) (fst ?r # map fst post)"
    by (rule takeWhile_append2)
  with y have "y \<in> set (map fst pre)" unfolding e by simp
  then obtain z' where z': "z' \<in> set pre" "fst z' = y" by auto
  from z'(1) have "z' \<in> set (pre @ ?r # post)" by simp
  then have "z' \<in> set (b # xs)" unfolding s [symmetric] .
  with d z z' have "z' = z" by (metis eq_key_imp_eq_value prod.collapse)
  with z' l show ?thesis by blast
qed

lemma matching_verdicts_filter:
  "matching_verdicts vs (map f vs) w = filter (\<lambda>v. f v = w) vs"
  unfolding matching_verdicts_def by (induction vs) auto

lemma aggregate_verdicts_nonempty:
  assumes ne: "verdicts \<noteq> []"
  shows "\<exists>kv kvs. verdict_counts_of (normalized_verdicts verdicts) = kv # kvs
    \<and> aggregate_verdicts verdicts =
        Inr \<lparr>agg_verdict = fst (max_from kv kvs),
             agg_confidence =
               (let m = filter (\<lambda>v. normalize_verdict (get_verdict v) = fst (max_from kv kvs)) verdicts
                in if m \<noteq> [] then sum_list (map get_confidence m) / real (length m) else 0),
             agg_count = length verdicts,
             agg_distribution = Some (kv # kvs)\<rparr>"
proof -
  let ?ns = "normalized_verdicts verdicts"
  from ne have "?ns \<noteq> []" by (simp add: normalized_verdicts_def)
  then have "rev (remdups (rev ?ns)) \<noteq> []" by simp
  then have "verdict_counts_of ?ns \<noteq> []" by (simp add: verdict_counts_of_eq)
  then obtain kv kvs where c: "verdict_counts_of ?ns = kv # kvs" by (cases "verdict_counts_of ?ns") auto
  have m: "matching_verdicts verdicts ?ns w = filter (\<lambda>v. normalize_verdict (get_verdict v) = w) verdicts" for w
    unfolding normalized_verdicts_def by (rule matching_verdicts_filter)
  show ?thesis
    using ne by (simp add: aggregate_verdicts_def c max_by_count_def m Let_def)
qed

lemma aggregate_verdicts_vote:
  assumes ne: "verdicts \<noteq> []"
  shows "\<exists>r. aggregate_verdicts verdicts = Inr r
    \<and> agg_verdict r \<in> set (normalized_verdicts verdicts)
    \<and> (\<forall>u. count_list (normalized_verdicts verdicts) u
            \<le> count_list (normalized_verdicts verdicts) (agg_verdict r))
    \<and> (\<forall>u \<in> set (takeWhile (\<lambda>x. x \<noteq> agg_verdict r) (normalized_verdicts verdicts)).
          count_list (normalized_verdicts verdicts) u
            < count_list (normalized_verdicts verdicts) (agg_verdict r))
    \<and> agg_confidence r =
        sum_list (map get_confidence
          (filter (\<lambda>v. normalize_verdict (get_verdict v) = agg_verdict r) verdicts))
        / real (length (filter (\<lambda>v. normalize_verdict (get_verdict v) = agg_verdict r) verdicts))"
proof -
  let ?ns = "normalized_verdicts verdicts"
  let ?K = "rev (remdups (rev ?ns))"
  let ?g = "\<lambda>k. (k, count_list ?ns k)"
  from aggregate_verdicts_nonempty [OF ne] obtain kv kvs where
    c: "verdict_counts_of ?ns = kv # kvs" and
    a: "aggregate_verdicts verdicts =
        Inr \<lparr>agg_verdict = fst (max_from kv kvs),
             agg_confidence =
               (let m = filter (\<lambda>v. normalize_verdict (get_verdict v) = fst (max_from kv kvs)) verdicts
                in if m \<noteq> [] then sum_list (map get_confidence m) / real (length m) else 0),
             agg_count = length verdicts,
             agg_distribution = Some (kv # kvs)\<rparr>"
    by blast
  let ?r = "max_from kv kvs"
  let ?w = "fst ?r"
  have eq: "kv # kvs = map ?g ?K" using c by (simp add: verdict_counts_of_eq)
  have keys: "map fst (kv # kvs) = ?K" unfolding eq by (simp add: comp_def)
  have mem: "z \<in> set (kv # kvs) \<longleftrightarrow> (fst z \<in> set ?ns \<and> snd z = count_list ?ns (fst z))" for z
    unfolding eq by (cases z) auto
  have "?r \<in> set (kv # kvs)" by (rule max_from_mem)
  then have w_in: "?w \<in> set ?ns" and w_cnt: "snd ?r = count_list ?ns ?w"
    by (simp_all only: mem)
  have maj: "count_list ?ns u \<le> count_list ?ns ?w" for u
  proof (cases "u \<in> set ?ns")
    case True
    then have "(u, count_list ?ns u) \<in> set (kv # kvs)" by (simp only: mem fst_conv snd_conv)
    from max_from_ge [OF this] show ?thesis by (simp add: w_cnt)
  next
    case False
    then show ?thesis by simp
  qed
  have first: "count_list ?ns u < count_list ?ns ?w"
    if u: "u \<in> set (takeWhile (\<lambda>x. x \<noteq> ?w) ?ns)" for u
  proof -
    from u have uK: "u \<in> set (takeWhile (\<lambda>x. x \<noteq> ?w) (map fst (kv # kvs)))"
      unfolding keys by (simp only: takeWhile_first_occurrences)
    from u have "u \<in> set ?ns" by (rule set_takeWhileD [THEN conjunct1])
    then have z: "(u, count_list ?ns u) \<in> set (kv # kvs)" by (simp only: mem fst_conv snd_conv)
    have d: "distinct (map fst (kv # kvs))" unfolding keys by simp
    from max_from_first [OF d uK z] show ?thesis by (simp add: w_cnt)
  qed
  from w_in have "filter (\<lambda>v. normalize_verdict (get_verdict v) = ?w) verdicts \<noteq> []"
    by (auto simp: normalized_verdicts_def filter_empty_conv)
  then have conf: "(let m = filter (\<lambda>v. normalize_verdict (get_verdict v) = ?w) verdicts
                in if m \<noteq> [] then sum_list (map get_confidence m) / real (length m) else 0)
      = sum_list (map get_confidence
          (filter (\<lambda>v. normalize_verdict (get_verdict v) = ?w) verdicts))
        / real (length (filter (\<lambda>v. normalize_verdict (get_verdict v) = ?w) verdicts))"
    by (simp add: Let_def)
  define r where "r = \<lparr>agg_verdict = ?w,
             agg_confidence =
               (let m = filter (\<lambda>v. normalize_verdict (get_verdict v) = ?w) verdicts
                in if m \<noteq> [] then sum_list (map get_confidence m) / real (length m) else 0),
             agg_count = length verdicts,
             agg_distribution = Some (kv # kvs)\<rparr>"
  have v: "agg_verdict r = ?w" by (simp add: r_def)
  have "aggregate_verdicts verdicts = Inr r" using a by (simp only: r_def)
  moreover have "agg_verdict r \<in> set ?ns" using w_in by (simp only: v)
  moreover have "\<forall>u. count_list ?ns u \<le> count_list ?ns (agg_verdict r)"
    using maj by (simp only: v) blast
  moreover have "\<forall>u \<in> set (takeWhile (\<lambda>x. x \<noteq> agg_verdict r) ?ns).
      count_list ?ns u < count_list ?ns (agg_verdict r)"
    using first by (simp only: v) blast
  moreover have "agg_confidence r =
        sum_list (map get_confidence
          (filter (\<lambda>v. normalize_verdict (get_verdict v) = agg_verdict r) verdicts))
        / real (length (filter (\<lambda>v. normalize_verdict (get_verdict v) = agg_verdict r) verdicts))"
    unfolding v using conf by (simp add: r_def)
  ultimately show ?thesis by blast
qed

lemma aggregate_example_majority:
  "\<exists>r. aggregate_verdicts
          [\<lparr>resp_verdict = Some ''true'', resp_confidence = c1\<rparr>,
           \<lparr>resp_verdict = Some ''true'', resp_confidence = c2\<rparr>,
           \<lparr>resp_verdict = Some ''false'', resp_confidence = c3\<rparr>] = Inr r
       \<and> agg_verdict r = ''true''"
proof -
  have "normalize_verdict ''true'' = ''true''" "normalize_verdict ''false'' = ''false''"
    by code_simp+
  then show ?thesis
    by (simp add: aggregate_verdicts_def normalized_verdicts_def get_verdict_def
        verdict_counts_of_def max_by_count_def Let_def)
qed

lemma aggregate_example_tie:
  "\<exists>r. aggregate_verdicts
          [\<lparr>resp_verdict = Some ''true'', resp_confidence = c1\<rparr>,
           \<lparr>resp_verdict = Some ''false'', resp_confidence = c2\<rparr>] = Inr r
       \<and> agg_verdict r = ''true''"
proof -
  have "normalize_verdict ''true'' = ''true''" "normalize_verdict ''false'' = ''false''"
    by code_simp+
  then show ?thesis
    by (simp add: aggregate_verdicts_def normalized_verdicts_def get_verdict_def
        verdict_counts_of_def max_by_count_def Let_def)
qed

text \<open>
  C2. \<open>normalize_verdict\<close> is not idempotent. The variants are looked up with the substring
  test \<open>v in verdict_lower\<close>, and the canonical verdict \<open>unverified\<close> contains the true
  variant \<open>verified\<close>: an unrecognised verdict such as \<open>unknown\<close> normalizes to
  \<open>unverified\<close>, and normalizing that again gives \<open>true\<close>.
\<close>

theorem normalize_verdict_not_idempotent:
  "normalize_verdict ''unknown'' = ''unverified''
   \<and> normalize_verdict (normalize_verdict ''unknown'') = ''true''"
  by code_simp

text \<open>
  C3, as stated, fails: a string outside the listed synonyms is not always sent to
  \<open>unverified\<close>, since a variant is recognised anywhere inside the verdict.
\<close>

theorem normalize_verdict_other_counterexample:
  "normalize_verdict ''mostly accurate'' = ''true''
   \<and> normalize_verdict ''mostly accurate'' \<noteq> ''unverified''"
  by code_simp

text \<open>
  C3, amended. The verdicts \<open>true\<close>, \<open>false\<close> and \<open>misleading\<close> normalize to themselves.
  The synonyms \<open>correct\<close>, \<open>accurate\<close>, \<open>verified\<close>, \<open>factual\<close> normalize to
  \<open>true\<close>; \<open>debunked\<close>, \<open>disproven\<close> to \<open>false\<close>; \<open>mixed\<close>, \<open>unclear\<close> to \<open>misleading\<close>; and
  every string that, lower-cased and trimmed, contains none of the variant words
  normalizes to \<open>unverified\<close>.
\<close>

theorem normalize_verdict_synonyms:
  "normalize_verdict ''true'' = ''true'' \<and> normalize_verdict ''false'' = ''false''
   \<and> normalize_verdict ''misleading'' = ''misleading''
   \<and> normalize_verdict ''correct'' = ''true'' \<and> normalize_verdict ''accurate'' = ''true''
   \<and> normalize_verdict ''verified'' = ''true'' \<and> normalize_verdict ''factual'' = ''true''
   \<and> normalize_verdict ''debunked'' = ''false'' \<and> normalize_verdict ''disproven'' = ''false''
   \<and> normalize_verdict ''mixed'' = ''misleading'' \<and> normalize_verdict ''unclear'' = ''misleading''
   \<and> (\<not> list_ex (contains (strip (lower x)))
            (true_variants @ false_variants @ misleading_variants)
        \<longrightarrow> normalize_verdict x = ''unverified'')"
proof -
  have "\<not> list_ex (contains (strip (lower x)))
            (true_variants @ false_variants @ misleading_variants)
        \<longrightarrow> normalize_verdict x = ''unverified''"
    by (simp add: normalize_verdict_def Let_def)
  moreover have "normalize_verdict ''true'' = ''true''" by code_simp
  moreover have "normalize_verdict ''false'' = ''false''" by code_simp
  moreover have "normalize_verdict ''misleading'' = ''misleading''" by code_simp
  moreover have "normalize_verdict ''correct'' = ''true''" by code_simp
  moreover have "normalize_verdict ''accurate'' = ''true''" by code_simp
  moreover have "normalize_verdict ''verified'' = ''true''" by code_simp
  moreover have "normalize_verdict ''factual'' = ''true''" by code_simp
  moreover have "normalize_verdict ''debunked'' = ''false''" by code_simp
  moreover have "normalize_verdict ''disproven'' = ''false''" by code_simp
  moreover have "normalize_verdict ''mixed'' = ''misleading''" by code_simp
  moreover have "normalize_verdict ''unclear'' = ''misleading''" by code_simp
  ultimately show ?thesis by blast
qed

theorem normalize_verdict_synonyms_witness:
  "\<not> list_ex (contains (strip (lower ''maybe'')))
            (true_variants @ false_variants @ misleading_variants)
   \<and> normalize_verdict ''maybe'' = ''unverified''"
proof -
  have h: "\<not> list_ex (contains (strip (lower ''maybe'')))
            (true_variants @ false_variants @ misleading_variants)"
    by code_simp
  from normalize_verdict_synonyms [of "''maybe''"] h show ?thesis by blast
qed

text \<open>
  C9. On a non-empty list \<open>aggregate_verdicts\<close> returns a verdict that occurs among the
  normalized verdicts and has the most votes; every verdict seen before the winner's
  first occurrence has strictly fewer votes, so a tie goes to the first-seen verdict; the
  confidence is the mean of the confidences of the responses whose normalized verdict is
  the winner. Votes \<open>true, true, false\<close> give \<open>true\<close>, and the tie \<open>true, false\<close> gives
  \<open>true\<close>.
\<close>

theorem aggregate_verdicts_majority:
  "(verdicts \<noteq> [] \<longrightarrow>
     (\<exists>r. aggregate_verdicts verdicts = Inr r
        \<and> agg_verdict r \<in> set (normalized_verdicts verdicts)
        \<and> (\<forall>u. count_list (normalized_verdicts verdicts) u
                \<le> count_list (normalized_verdicts verdicts) (agg_verdict r))
        \<and> (\<forall>u \<in> set (takeWhile (\<lambda>x. x \<noteq> agg_verdict r) (normalized_verdicts verdicts)).
              count_list (normalized_verdicts verdicts) u
                < count_list (normalized_verdicts verdicts) (agg_verdict r))
        \<and> agg_confidence r =
            sum_list (map get_confidence
              (filter (\<lambda>v. normalize_verdict (get_verdict v) = agg_verdict r) verdicts))
            / real (length
                (filter (\<lambda>v. normalize_verdict (get_verdict v) = agg_verdict r) verdicts))))
   \<and> (\<exists>r. aggregate_verdicts
          [\<lparr>resp_verdict = Some ''true'', resp_confidence = c1\<rparr>,
           \<lparr>resp_verdict = Some ''true'', resp_confidence = c2\<rparr>,
           \<lparr>resp_verdict = Some ''false'', resp_confidence = c3\<rparr>] = Inr r
         \<and> agg_verdict r = ''true'')
   \<and> (\<exists>r. aggregate_verdicts
          [\<lparr>resp_verdict = Some ''true'', resp_confidence = c4\<rparr>,
           \<lparr>resp_verdict = Some ''false'', resp_confidence = c5\<rparr>] = Inr r
         \<and> agg_verdict r = ''true'')"
  using aggregate_verdicts_vote [of verdicts] aggregate_example_majority [of c1 c2 c3]
    aggregate_example_tie [of c4 c5]
  by blast

theorem aggregate_verdicts_majority_witness:
  "[\<lparr>resp_verdict = Some ''false'', resp_confidence = Some 0.6\<rparr>,
    \<lparr>resp_verdict = Some ''correct'', resp_confidence = Some 0.9\<rparr>,
    \<lparr>resp_verdict = Some ''true'', resp_confidence = Some 0.7\<rparr>] \<noteq> []
   \<and> (\<exists>r. aggregate_verdicts
          [\<lparr>resp_verdict = Some ''false'', resp_confidence = Some 0.6\<rparr>,
           \<lparr>resp_verdict = Some ''correct'', resp_confidence = Some 0.9\<rparr>,
           \<lparr>resp_verdict = Some ''true'', resp_confidence = Some 0.7\<rparr>] = Inr r
        \<and> agg_verdict r \<in> set (normalized_verdicts
          [\<lparr>resp_verdict = Some ''false'', resp_confidence = Some 0.6\<rparr>,
           \<lparr>resp_verdict = Some ''correct'', resp_confidence = Some 0.9\<rparr>,
           \<lparr>resp_verdict = Some ''true'', resp_confidence = Some 0.7\<rparr>]))"
proof -
  let ?vs = "[\<lparr>resp_verdict = Some ''false'', resp_confidence = Some 0.6\<rparr>,
    \<lparr>resp_verdict = Some ''correct'', resp_confidence = Some 0.9\<rparr>,
    \<lparr>resp_verdict = Some ''true'', resp_confidence = Some (0.7::real)\<rparr>]"
  have h: "?vs \<noteq> []" by simp
  from aggregate_verdicts_majority [of ?vs] h show ?thesis by blast
qed

text \<open>
  C10. On the empty list \<open>aggregate_verdicts\<close> does not raise and returns the verdict
  \<open>unverified\<close>, confidence 0.0 and count 0 (and no distribution).
\<close>

theorem aggregate_verdicts_empty:
  "aggregate_verdicts [] =
     Inr \<lparr>agg_verdict = ''unverified'', agg_confidence = 0, agg_count = 0,
          agg_distribution = None\<rparr>"
  by (simp add: aggregate_verdicts_def)

section \<open>Properties of the credibility analyzer\<close>

lemma calculate_trust_score_range: "0 \<le> calculate_trust_score m \<and> calculate_trust_score m \<le> 1"
  by (simp add: calculate_trust_score_def Let_def)

lemma calculate_trust_score_formula:
  "calculate_trust_score m =
     max 0 (min 1
       (0.5 + (if m_is_fact_checker m then 0.3 else 0) + (if m_is_academic m then 0.2 else 0)
            - (if m_is_unreliable m then 0.4 else 0)
            + (if m_domain_age m = ''established'' then 0.1 else 0)))"
  by (simp add: calculate_trust_score_def Let_def)

lemma estimate_domain_age_established:
  "estimate_domain_age d = ''established'' \<longleftrightarrow> suffix ''.edu'' d \<or> suffix ''.gov'' d"
  by (simp add: estimate_domain_age_def)

lemma calculate_trust_score_update [simp]:
  "calculate_trust_score (m\<lparr>m_trust_score := x\<rparr>) = calculate_trust_score m"
  by (simp add: calculate_trust_score_def)

lemma analyze_source_parsed:
  assumes "urlparse_netloc url = Inr netloc"
  shows "\<exists>m. analyze_source urlparse_netloc url = Analysed m
        \<and> m_domain m = lower (replace netloc ''www.'' '''')
        \<and> m_domain_age m = estimate_domain_age (m_domain m)
        \<and> m_is_fact_checker m = (m_domain m \<in> set fact_check_domains)
        \<and> m_is_unreliable m = (m_domain m \<in> set unreliable_domains)
        \<and> m_is_academic m = list_ex (\<lambda>ext. suffix ext (m_domain m)) academic_domains
        \<and> m_trust_score m = calculate_trust_score m"
proof -
  let ?m = "basic_metrics netloc url"
  have "analyze_source urlparse_netloc url
      = Analysed (?m\<lparr>m_trust_score := calculate_trust_score ?m\<rparr>)"
    using assms by (simp add: analyze_source_def Let_def)
  moreover have "m_domain ?m = lower (replace netloc ''www.'' '''')"
    "m_domain_age ?m = estimate_domain_age (m_domain ?m)"
    "m_is_fact_checker ?m = (m_domain ?m \<in> set fact_check_domains)"
    "m_is_unreliable ?m = (m_domain ?m \<in> set unreliable_domains)"
    "m_is_academic ?m = list_ex (\<lambda>ext. suffix ext (m_domain ?m)) academic_domains"
    by (simp_all add: basic_metrics_def Let_def)
  ultimately show ?thesis by simp
qed

text \<open>
  C7. When \<open>urlparse\<close> succeeds, \<open>analyze_source\<close> returns metrics whose trust score is the
  clamp to \<open>[0, 1]\<close> of 0.5, plus 0.3 for a fact-checker domain, plus 0.2 for an academic
  suffix, minus 0.4 for an unreliable domain, plus 0.1 for an established domain
  (\<open>.edu\<close> or \<open>.gov\<close>), the domain being the lower-cased netloc without \<open>www.\<close>; and
  \<open>_calculate_trust_score\<close> lies in \<open>[0, 1]\<close> for every combination of flags.
\<close>

theorem analyze_source_trust_score:
  "(urlparse_netloc url = Inr netloc \<longrightarrow>
     (\<exists>m. analyze_source urlparse_netloc url = Analysed m
        \<and> m_domain m = lower (replace netloc ''www.'' '''')
        \<and> m_trust_score m =
            max 0 (min 1
              (0.5 + (if m_domain m \<in> set fact_check_domains then 0.3 else 0)
                   + (if list_ex (\<lambda>ext. suffix ext (m_domain m)) [''.edu'', ''.ac.uk'', ''.edu.au'']
                      then 0.2 else 0)
                   - (if m_domain m \<in> set unreliable_domains then 0.4 else 0)
                   + (if suffix ''.edu'' (m_domain m) \<or> suffix ''.gov'' (m_domain m)
                      then 0.1 else 0)))
        \<and> 0 \<le> m_trust_score m \<and> m_trust_score m \<le> 1))
   \<and> 0 \<le> calculate_trust_score flags \<and> calculate_trust_score flags \<le> 1"
proof (intro conjI impI)
  assume "urlparse_netloc url = Inr netloc"
  from analyze_source_parsed [of urlparse_netloc url netloc, OF this] obtain m where
    a: "analyze_source urlparse_netloc url = Analysed m"
    and d: "m_domain m = lower (replace netloc ''www.'' '''')"
    and g: "m_domain_age m = estimate_domain_age (m_domain m)"
    and f: "m_is_fact_checker m = (m_domain m \<in> set fact_check_domains)"
    and u: "m_is_unreliable m = (m_domain m \<in> set unreliable_domains)"
    and c: "m_is_academic m = list_ex (\<lambda>ext. suffix ext (m_domain m)) academic_domains"
    and t: "m_trust_score m = calculate_trust_score m"
    by blast
  have e: "(m_domain_age m = ''established'')
      = (suffix ''.edu'' (m_domain m) \<or> suffix ''.gov'' (m_domain m))"
    unfolding g by (rule estimate_domain_age_established)
  have "m_trust_score m =
            max 0 (min 1
              (0.5 + (if m_domain m \<in> set fact_check_domains then 0.3 else 0)
                   + (if list_ex (\<lambda>ext. suffix ext (m_domain m)) [''.edu'', ''.ac.uk'', ''.edu.au'']
                      then 0.2 else 0)
                   - (if m_domain m \<in> set unreliable_domains then 0.4 else 0)
                   + (if suffix ''.edu'' (m_domain m) \<or> suffix ''.gov'' (m_domain m)
                      then 0.1 else 0)))"
    unfolding t calculate_trust_score_formula f u c e academic_domains_def ..
  moreover have "0 \<le> m_trust_score m \<and> m_trust_score m \<le> 1"
    unfolding t by (rule calculate_trust_score_range)
  ultimately show "\<exists>m. analyze_source urlparse_netloc url = Analysed m
        \<and> m_domain m = lower (replace netloc ''www.'' '''')
        \<and> m_trust_score m =
            max 0 (min 1
              (0.5 + (if m_domain m \<in> set fact_check_domains then 0.3 else 0)
                   + (if list_ex (\<lambda>ext. suffix ext (m_domain m)) [''.edu'', ''.ac.uk'', ''.edu.au'']
                      then 0.2 else 0)
                   - (if m_domain m \<in> set unreliable_domains then 0.4 else 0)
                   + (if suffix ''.edu'' (m_domain m) \<or> suffix ''.gov'' (m_domain m)
                      then 0.1 else 0)))
        \<and> 0 \<le> m_trust_score m \<and> m_trust_score m \<le> 1"
    using a d by blast
next
  show "0 \<le> calculate_trust_score flags" "calculate_trust_score flags \<le> 1"
    using calculate_trust_score_range [of flags] by simp_all
qed

theorem analyze_source_trust_score_witness:
  "(\<lambda>u. Inr ''www.snopes.com'' :: py_error + string) ''https://www.snopes.com/fact-check''
      = Inr ''www.snopes.com''
   \<and> (\<exists>m. analyze_source (\<lambda>u. Inr ''www.snopes.com'') ''https://www.snopes.com/fact-check''
            = Analysed m
        \<and> m_domain m = lower (replace ''www.snopes.com'' ''www.'' '''')
        \<and> 0 \<le> m_trust_score m \<and> m_trust_score m \<le> 1)"
proof -
  have h: "(\<lambda>u. Inr ''www.snopes.com'' :: py_error + string) ''https://www.snopes.com/fact-check''
      = Inr ''www.snopes.com''"
    by simp
  from analyze_source_trust_score [of "\<lambda>u. Inr ''www.snopes.com''"
      "''https://www.snopes.com/fact-check''" "''www.snopes.com''"] h
  show ?thesis by blast
qed

section \<open>Properties of the rule-based verifier\<close>

lemma contains_Nil_iff: "contains [] p \<longleftrightarrow> p = []"
  by simp

lemma contains_prefix: "contains s (p @ q) \<Longrightarrow> contains s p"
  by (induction s) (auto dest: append_prefixD)

lemma analyse_evidence_Nil:
  "analyse_evidence cl [] =
     \<lparr>supporting_evidence = 0, contradicting_evidence = 0, evidence_snippets = []\<rparr>"
  by (simp add: analyse_evidence_def)

lemma rule_based_empty:
  "rule_based_verify_claim claim [] =
     \<lparr>vr_verdict = ''unverified'', vr_confidence = 0.2,
      vr_explanation = ''No evidence sources found to verify this claim. Web search and Knowledge Base retrieval returned no results.'',
      vr_citations = []\<rparr>"
  by (simp add: rule_based_verify_claim_def Let_def)

lemma rule_based_supporting:
  assumes "contradicting_evidence (analyse_evidence (lower claim) evidence)
             < supporting_evidence (analyse_evidence (lower claim) evidence)"
    and "0 < supporting_evidence (analyse_evidence (lower claim) evidence)"
  shows "vr_verdict (rule_based_verify_claim claim evidence) = ''true''"
    and "vr_confidence (rule_based_verify_claim claim evidence) =
       min 0.75 (0.5 + 0.1 * supporting_evidence (analyse_evidence (lower claim) evidence)
                 + 0.05 * real (length evidence))"
proof -
  from assms(2) have ne: "evidence \<noteq> []" by (auto simp: analyse_evidence_Nil)
  show "vr_verdict (rule_based_verify_claim claim evidence) = ''true''"
    using assms ne by (simp add: rule_based_verify_claim_def Let_def)
  show "vr_confidence (rule_based_verify_claim claim evidence) =
       min 0.75 (0.5 + 0.1 * supporting_evidence (analyse_evidence (lower claim) evidence)
                 + 0.05 * real (length evidence))"
    using assms ne by (simp add: rule_based_verify_claim_def Let_def mult.commute)
qed

lemma rule_based_contradicting:
  assumes "supporting_evidence (analyse_evidence (lower claim) evidence)
             < contradicting_evidence (analyse_evidence (lower claim) evidence)"
    and "0 < contradicting_evidence (analyse_evidence (lower claim) evidence)"
  shows "vr_verdict (rule_based_verify_claim claim evidence) = ''false''"
    and "vr_confidence (rule_based_verify_claim claim evidence) =
       min 0.75 (0.5 + 0.1 * contradicting_evidence (analyse_evidence (lower claim) evidence)
                 + 0.05 * real (length evidence))"
proof -
  from assms(2) have ne: "evidence \<noteq> []" by (auto simp: analyse_evidence_Nil)
  show "vr_verdict (rule_based_verify_claim claim evidence) = ''false''"
    using assms ne by (simp add: rule_based_verify_claim_def Let_def)
  show "vr_confidence (rule_based_verify_claim claim evidence) =
       min 0.75 (0.5 + 0.1 * contradicting_evidence (analyse_evidence (lower claim) evidence)
                 + 0.05 * real (length evidence))"
    using assms ne by (simp add: rule_based_verify_claim_def Let_def mult.commute)
qed

lemma earth_keywords:
  "claim_keywords_of (lower ''The Earth is round.'') = [''earth'', ''round.'']"
  by code_simp

lemma earth_analysis:
  assumes s: "ev ''snippet'' = Some s"
    and k: "contains (lower s) ''earth'' \<or> contains (lower s) ''round.''"
    and c: "contains (lower s) ''confirmed''"
  shows "analyse_evidence (lower ''The Earth is round.'') [ev] =
     \<lparr>supporting_evidence = 1, contradicting_evidence = 0,
      evidence_snippets = [if 150 < length s then take 150 s @ ''...'' else s]\<rparr>"
proof -
  from c have "lower s \<noteq> []" by (cases "lower s") auto
  then have "s \<noteq> []" by (auto simp: lower_def)
  with s have sn: "ev_snippet ev = s" by (simp add: ev_snippet_def get_default_def)
  from c have "contains (lower s) (''confirm'' @ ''ed'')" by simp
  then have "contains (lower s) ''confirm''" by (rule contains_prefix)
  then have sup: "list_ex (contains (lower s)) supporting_words"
    by (simp add: supporting_words_def)
  from k have kw: "list_ex (contains (lower s)) (claim_keywords_of (lower ''The Earth is round.''))"
    by (simp only: earth_keywords) simp
  show ?thesis
    by (simp add: analyse_evidence_def analyse_step_def sn sup kw Let_def)
qed


text \<open>
  C6. With an empty evidence list the rule-based verifier returns the verdict
  \<open>unverified\<close> with confidence 0.2, whatever the claim.
\<close>

theorem rule_based_empty_evidence:
  "vr_verdict (rule_based_verify_claim claim []) = ''unverified''
   \<and> vr_confidence (rule_based_verify_claim claim []) = 0.2"
  by (simp add: rule_based_empty)

text \<open>
  C5. When the supporting weight strictly exceeds the contradicting weight and is positive,
  the verdict is \<open>true\<close> with confidence
  \<open>min(0.75, 0.5 + 0.1 * supporting + 0.05 * evidence_count)\<close>; symmetrically \<open>false\<close>
  when the contradicting weight dominates. For the claim \<open>The Earth is round.\<close> and one
  evidence item whose snippet shares a claim keyword (\<open>earth\<close> or \<open>round.\<close>), contains
  \<open>confirmed\<close> and carries a URL or a title, the verdict is \<open>true\<close>, the confidence lies in
  \<open>[0.5, 0.75]\<close> and the citation list is not empty.
\<close>

theorem rule_based_dominance:
  "(contradicting_evidence (analyse_evidence (lower claim) evidence)
       < supporting_evidence (analyse_evidence (lower claim) evidence)
     \<and> 0 < supporting_evidence (analyse_evidence (lower claim) evidence)
     \<longrightarrow> vr_verdict (rule_based_verify_claim claim evidence) = ''true''
       \<and> vr_confidence (rule_based_verify_claim claim evidence) =
           min 0.75 (0.5 + 0.1 * supporting_evidence (analyse_evidence (lower claim) evidence)
                     + 0.05 * real (length evidence)))
   \<and> (supporting_evidence (analyse_evidence (lower claim') evidence')
       < contradicting_evidence (analyse_evidence (lower claim') evidence')
     \<and> 0 < contradicting_evidence (analyse_evidence (lower claim') evidence')
     \<longrightarrow> vr_verdict (rule_based_verify_claim claim' evidence') = ''false''
       \<and> vr_confidence (rule_based_verify_claim claim' evidence') =
           min 0.75 (0.5 + 0.1 * contradicting_evidence (analyse_evidence (lower claim') evidence')
                     + 0.05 * real (length evidence')))
   \<and> (ev ''snippet'' = Some s
     \<and> (contains (lower s) ''earth'' \<or> contains (lower s) ''round.'')
     \<and> contains (lower s) ''confirmed''
     \<and> (truthy_get ev ''url'' \<or> truthy_get ev ''title'')
     \<longrightarrow> vr_verdict (rule_based_verify_claim ''The Earth is round.'' [ev]) = ''true''
       \<and> 0.5 \<le> vr_confidence (rule_based_verify_claim ''The Earth is round.'' [ev])
       \<and> vr_confidence (rule_based_verify_claim ''The Earth is round.'' [ev]) \<le> 0.75
       \<and> vr_citations (rule_based_verify_claim ''The Earth is round.'' [ev]) \<noteq> [])"
proof (intro conjI impI)
  assume "contradicting_evidence (analyse_evidence (lower claim) evidence)
       < supporting_evidence (analyse_evidence (lower claim) evidence)
     \<and> 0 < supporting_evidence (analyse_evidence (lower claim) evidence)"
  then show "vr_verdict (rule_based_verify_claim claim evidence) = ''true''"
    and "vr_confidence (rule_based_verify_claim claim evidence) =
           min 0.75 (0.5 + 0.1 * supporting_evidence (analyse_evidence (lower claim) evidence)
                     + 0.05 * real (length evidence))"
    by (simp_all only: rule_based_supporting)
next
  assume "supporting_evidence (analyse_evidence (lower claim') evidence')
       < contradicting_evidence (analyse_evidence (lower claim') evidence')
     \<and> 0 < contradicting_evidence (analyse_evidence (lower claim') evidence')"
  then show "vr_verdict (rule_based_verify_claim claim' evidence') = ''false''"
    and "vr_confidence (rule_based_verify_claim claim' evidence') =
           min 0.75 (0.5 + 0.1 * contradicting_evidence (analyse_evidence (lower claim') evidence')
                     + 0.05 * real (length evidence'))"
    by (simp_all only: rule_based_contradicting)
next
  assume h: "ev ''snippet'' = Some s
     \<and> (contains (lower s) ''earth'' \<or> contains (lower s) ''round.'')
     \<and> contains (lower s) ''confirmed''
     \<and> (truthy_get ev ''url'' \<or> truthy_get ev ''title'')"
  let ?r = "rule_based_verify_claim ''The Earth is round.'' [ev]"
  from h have a: "analyse_evidence (lower ''The Earth is round.'') [ev] =
     \<lparr>supporting_evidence = 1, contradicting_evidence = 0,
      evidence_snippets = [if 150 < length s then take 150 s @ ''...'' else s]\<rparr>"
    by (intro earth_analysis) simp_all
  have sup: "contradicting_evidence (analyse_evidence (lower ''The Earth is round.'') [ev])
       < supporting_evidence (analyse_evidence (lower ''The Earth is round.'') [ev])"
    "0 < supporting_evidence (analyse_evidence (lower ''The Earth is round.'') [ev])"
    by (simp_all add: a)
  show "vr_verdict ?r = ''true''" by (rule rule_based_supporting(1) [OF sup])
  have c: "vr_confidence ?r = 0.65"
    by (simp add: rule_based_supporting(2) [OF sup] a)
  show "0.5 \<le> vr_confidence ?r" by (simp add: c)
  show "vr_confidence ?r \<le> 0.75" by (simp add: c)
  have "vr_citations ?r = citations_of [ev]"
    by (simp add: rule_based_verify_claim_def Let_def split: prod.splits)
  with h show "vr_citations ?r \<noteq> []" by auto
qed

theorem rule_based_dominance_witness:
  "(contradicting_evidence (analyse_evidence (lower ''The Earth is round.'')
        [[''type'' \<mapsto> ''web'', ''url'' \<mapsto> ''https://example.org/earth'',
          ''snippet'' \<mapsto> ''Scientists confirmed the Earth is round.'']])
      < supporting_evidence (analyse_evidence (lower ''The Earth is round.'')
        [[''type'' \<mapsto> ''web'', ''url'' \<mapsto> ''https://example.org/earth'',
          ''snippet'' \<mapsto> ''Scientists confirmed the Earth is round.'']])
    \<and> 0 < supporting_evidence (analyse_evidence (lower ''The Earth is round.'')
        [[''type'' \<mapsto> ''web'', ''url'' \<mapsto> ''https://example.org/earth'',
          ''snippet'' \<mapsto> ''Scientists confirmed the Earth is round.'']]))
   \<and> (supporting_evidence (analyse_evidence (lower ''The Earth is flat.'')
        [[''type'' \<mapsto> ''web'', ''title'' \<mapsto> ''Flat earth'',
          ''snippet'' \<mapsto> ''Experts debunk the flat Earth idea'']])
      < contradicting_evidence (analyse_evidence (lower ''The Earth is flat.'')
        [[''type'' \<mapsto> ''web'', ''title'' \<mapsto> ''Flat earth'',
          ''snippet'' \<mapsto> ''Experts debunk the flat Earth idea'']])
    \<and> 0 < contradicting_evidence (analyse_evidence (lower ''The Earth is flat.'')
        [[''type'' \<mapsto> ''web'', ''title'' \<mapsto> ''Flat earth'',
          ''snippet'' \<mapsto> ''Experts debunk the flat Earth idea'']]))
   \<and> vr_verdict (rule_based_verify_claim ''The Earth is round.''
        [[''type'' \<mapsto> ''web'', ''url'' \<mapsto> ''https://example.org/earth'',
          ''snippet'' \<mapsto> ''Scientists confirmed the Earth is round.'']]) = ''true''
   \<and> vr_confidence (rule_based_verify_claim ''The Earth is round.''
        [[''type'' \<mapsto> ''web'', ''url'' \<mapsto> ''https://example.org/earth'',
          ''snippet'' \<mapsto> ''Scientists confirmed the Earth is round.'']]) \<le> 0.75
   \<and> vr_citations (rule_based_verify_claim ''The Earth is round.''
        [[''type'' \<mapsto> ''web'', ''url'' \<mapsto> ''https://example.org/earth'',
          ''snippet'' \<mapsto> ''Scientists confirmed the Earth is round.'']]) \<noteq> []
   \<and> vr_verdict (rule_based_verify_claim ''The Earth is flat.''
        [[''type'' \<mapsto> ''web'', ''title'' \<mapsto> ''Flat earth'',
          ''snippet'' \<mapsto> ''Experts debunk the flat Earth idea'']]) = ''false''"
proof -
  let ?ev = "[''type'' \<mapsto> ''web'', ''url'' \<mapsto> ''https://example.org/earth'',
          ''snippet'' \<mapsto> ''Scientists confirmed the Earth is round.'']"
  let ?ev' = "[''type'' \<mapsto> ''web'', ''title'' \<mapsto> ''Flat earth'',
          ''snippet'' \<mapsto> ''Experts debunk the flat Earth idea'']"
  let ?s = "''Scientists confirmed the Earth is round.''"
  have h1: "contradicting_evidence (analyse_evidence (lower ''The Earth is round.'') [?ev])
      < supporting_evidence (analyse_evidence (lower ''The Earth is round.'') [?ev])
    \<and> 0 < supporting_evidence (analyse_evidence (lower ''The Earth is round.'') [?ev])"
    by code_simp
  have h2: "supporting_evidence (analyse_evidence (lower ''The Earth is flat.'') [?ev'])
      < contradicting_evidence (analyse_evidence (lower ''The Earth is flat.'') [?ev'])
    \<and> 0 < contradicting_evidence (analyse_evidence (lower ''The Earth is flat.'') [?ev'])"
    by code_simp
  have h3: "?ev ''snippet'' = Some ?s
     \<and> (contains (lower ?s) ''earth'' \<or> contains (lower ?s) ''round.'')
     \<and> contains (lower ?s) ''confirmed''
     \<and> (truthy_get ?ev ''url'' \<or> truthy_get ?ev ''title'')"
    by code_simp
  note t = rule_based_dominance [where claim = "''The Earth is round.''" and evidence = "[?ev]"
      and claim' = "''The Earth is flat.''" and evidence' = "[?ev']" and ev = ?ev and s = ?s]
  from t h1 have c1: "vr_verdict (rule_based_verify_claim ''The Earth is round.'' [?ev]) = ''true''"
    by blast
  from t h2 have c2: "vr_verdict (rule_based_verify_claim ''The Earth is flat.'' [?ev']) = ''false''"
    by blast
  from t h3 have c3: "vr_confidence (rule_based_verify_claim ''The Earth is round.'' [?ev]) \<le> 0.75
     \<and> vr_citations (rule_based_verify_claim ''The Earth is round.'' [?ev]) \<noteq> []"
    by blast
  from h1 h2 c1 c2 c3 show ?thesis by blast
qed

section \<open>Properties of \<open>verify_claim\<close>\<close>

lemma generate_tiers:
  "fst (generate svc prompt t m j) = [OpenAITier]
   \<or> fst (generate svc prompt t m j) = [OpenAITier, CompletionTier]
   \<or> fst (generate svc prompt t m j) = [OpenAITier, CompletionTier, RuleBasedTier]"
  by (simp add: generate_def Let_def split: sum.splits)

lemma verify_claim_eq:
  "verify_claim svc rt claim evidence =
     (fst (verify_generate svc claim evidence),
      case parse_response rt (snd (verify_generate svc claim evidence)) of
        Inr result \<Rightarrow> Inr result
      | Inl e \<Rightarrow> Inr (of_verification (rule_based_verify_claim claim evidence)))"
  by (simp add: verify_claim_def Let_def split: prod.splits)

lemma verify_claim_failed:
  "parse_response rt (snd (verify_generate svc claim evidence)) = Inl e \<Longrightarrow>
   verify_claim svc rt claim evidence =
     (fst (verify_generate svc claim evidence),
      Inr (of_verification (rule_based_verify_claim claim evidence)))"
  by (simp add: verify_claim_eq)

lemma verify_claim_parsed:
  "parse_response rt (snd (verify_generate svc claim evidence)) = Inr r \<Longrightarrow>
   verify_claim svc rt claim evidence = (fst (verify_generate svc claim evidence), Inr r)"
  by (simp add: verify_claim_eq)

lemma parse_response_Inr:
  assumes "parse_response rt response = Inr r"
  shows "\<exists>body kvs. response = JStr body \<and> json_loads rt (json_span body) = Inr (JDict kvs)
     \<and> res_verdict r = (case map_of kvs ''verdict'' of None \<Rightarrow> JStr ''unverified'' | Some v \<Rightarrow> v)
     \<and> py_float rt (case map_of kvs ''confidence'' of None \<Rightarrow> JFloat 0.5 | Some v \<Rightarrow> v)
          = Inr (res_confidence r)
     \<and> res_explanation r = (case map_of kvs ''explanation'' of None \<Rightarrow> JStr '''' | Some v \<Rightarrow> v)
     \<and> res_citations r = (case map_of kvs ''citations'' of None \<Rightarrow> JList [] | Some v \<Rightarrow> v)"
proof -
  from assms obtain body where t: "response = JStr body"
    by (cases response) (simp_all add: parse_response_def)
  with assms obtain result where l: "json_loads rt (json_span body) = Inr result"
    and b: "build_result rt result = Inr r"
    by (auto simp: parse_response_def split: sum.splits)
  from b obtain kvs where k: "result = JDict kvs"
    by (cases result) (simp_all add: build_result_def dict_get_def)
  have half: "(5::real) / 10 = 1 / 2" by simp
  from b show ?thesis unfolding t k half
    using l [unfolded k]
    by (auto simp: build_result_def dict_get_def split: sum.splits)
qed

lemma rule_based_confidence_range:
  "0 \<le> vr_confidence (rule_based_verify_claim claim evidence)
   \<and> vr_confidence (rule_based_verify_claim claim evidence) \<le> 1"
  by (auto simp: rule_based_verify_claim_def Let_def min_def split: prod.splits)

text \<open>
  C4, as stated, fails: the verdict field is whatever the backend's JSON holds. A reply
  \<open>{"verdict": 1}\<close> is returned with the number 1 as its verdict.
\<close>

theorem verify_claim_types_counterexample:
  \<open>verify_claim (canned_service (Inr (JStr ''{"verdict": 1}'')) (Inl BackendError))
      (canned_runtime ''{"verdict": 1}'' (JDict [(''verdict'', JInt 1)]))
      ''The Earth is round.'' []
   = ([OpenAITier],
      Inr \<lparr>res_verdict = JInt 1, res_confidence = 0.5, res_explanation = JStr '''',
           res_citations = JList []\<rparr>)\<close>
  by (simp add: verify_claim_def verify_generate_def generate_def canned_service_def
      canned_runtime_def parse_response_def json_span_def strip_def lstrip_def rstrip_def
      isspace_def slice_def find_char_def rfind_char_def build_result_def dict_get_def
      py_float_def Let_def)

text \<open>
  C4, amended. \<open>verify_claim\<close> never raises and calls \<open>generate\<close> once, which enters each
  tier at most once, in order. When parsing the reply raises (a JSON decode failure or
  any other exception) the result is the rule-based verdict. Otherwise the reply is a
  string whose JSON span parses to an object, and the result holds that object's
  \<open>verdict\<close>, \<open>explanation\<close> and \<open>citations\<close> as they are (the defaults \<open>unverified\<close>, the empty
  string and the empty list when a key is absent) and its \<open>confidence\<close> coerced by
  \<open>float\<close> (default 0.5).
\<close>

theorem verify_claim_never_raises:
  "\<exists>r. verify_claim svc rt claim evidence = (fst (verify_generate svc claim evidence), Inr r)
     \<and> (fst (verify_generate svc claim evidence) = [OpenAITier]
        \<or> fst (verify_generate svc claim evidence) = [OpenAITier, CompletionTier]
        \<or> fst (verify_generate svc claim evidence)
             = [OpenAITier, CompletionTier, RuleBasedTier])
     \<and> ((\<exists>e. parse_response rt (snd (verify_generate svc claim evidence)) = Inl e)
        \<longrightarrow> r = of_verification (rule_based_verify_claim claim evidence))
     \<and> ((\<exists>r'. parse_response rt (snd (verify_generate svc claim evidence)) = Inr r')
        \<longrightarrow> parse_response rt (snd (verify_generate svc claim evidence)) = Inr r
          \<and> (\<exists>body kvs. snd (verify_generate svc claim evidence) = JStr body
               \<and> json_loads rt (json_span body) = Inr (JDict kvs)
               \<and> res_verdict r =
                   (case map_of kvs ''verdict'' of None \<Rightarrow> JStr ''unverified'' | Some v \<Rightarrow> v)
               \<and> py_float rt
                   (case map_of kvs ''confidence'' of None \<Rightarrow> JFloat 0.5 | Some v \<Rightarrow> v)
                   = Inr (res_confidence r)
               \<and> res_explanation r =
                   (case map_of kvs ''explanation'' of None \<Rightarrow> JStr '''' | Some v \<Rightarrow> v)
               \<and> res_citations r =
                   (case map_of kvs ''citations'' of None \<Rightarrow> JList [] | Some v \<Rightarrow> v)))"
proof (cases "parse_response rt (snd (verify_generate svc claim evidence))")
  case (Inl e)
  let ?r = "of_verification (rule_based_verify_claim claim evidence)"
  have "verify_claim svc rt claim evidence = (fst (verify_generate svc claim evidence), Inr ?r)"
    using Inl by (rule verify_claim_failed)
  moreover have "fst (verify_generate svc claim evidence) = [OpenAITier]
        \<or> fst (verify_generate svc claim evidence) = [OpenAITier, CompletionTier]
        \<or> fst (verify_generate svc claim evidence)
             = [OpenAITier, CompletionTier, RuleBasedTier]"
    unfolding verify_generate_def by (rule generate_tiers)
  moreover have "\<not> (\<exists>r'. parse_response rt (snd (verify_generate svc claim evidence)) = Inr r')"
    using Inl by simp
  ultimately show ?thesis by blast
next
  case (Inr r)
  have "verify_claim svc rt claim evidence = (fst (verify_generate svc claim evidence), Inr r)"
    using Inr by (rule verify_claim_parsed)
  moreover have "fst (verify_generate svc claim evidence) = [OpenAITier]
        \<or> fst (verify_generate svc claim evidence) = [OpenAITier, CompletionTier]
        \<or> fst (verify_generate svc claim evidence)
             = [OpenAITier, CompletionTier, RuleBasedTier]"
    unfolding verify_generate_def by (rule generate_tiers)
  moreover have "\<not> (\<exists>e. parse_response rt (snd (verify_generate svc claim evidence)) = Inl e)"
    using Inr by simp
  moreover note Inr parse_response_Inr [OF Inr]
  ultimately show ?thesis by blast
qed

lemma fallback_rejected:
  \<open>parse_response (canned_runtime ''{"verdict": "true", "confidence": 0.9}''
        (JDict [(''verdict'', JStr ''true''), (''confidence'', JFloat 0.9)]))
      (snd (verify_generate (canned_service (Inr (JStr ''I cannot verify this.'')) (Inl BackendError))
        ''The Earth is round.'' []))
    = Inl JSONDecodeError\<close>
  by (simp add: verify_generate_def generate_def canned_service_def
      canned_runtime_def parse_response_def json_span_def strip_def lstrip_def rstrip_def
      isspace_def Let_def)

lemma reply_parsed:
  \<open>parse_response (canned_runtime ''{"verdict": "true", "confidence": 0.9}''
        (JDict [(''verdict'', JStr ''true''), (''confidence'', JFloat 0.9)]))
      (snd (verify_generate
        (canned_service (Inr (JStr ''{"verdict": "true", "confidence": 0.9}'')) (Inl BackendError))
        ''The Earth is round.'' []))
    = Inr \<lparr>res_verdict = JStr ''true'', res_confidence = 0.9, res_explanation = JStr '''',
           res_citations = JList []\<rparr>\<close>
  by (simp add: verify_generate_def generate_def canned_service_def
      canned_runtime_def parse_response_def json_span_def strip_def lstrip_def rstrip_def
      isspace_def slice_def find_char_def rfind_char_def build_result_def dict_get_def
      py_float_def Let_def)

theorem verify_claim_never_raises_witness:
  \<open>parse_response (canned_runtime ''{"verdict": "true", "confidence": 0.9}''
        (JDict [(''verdict'', JStr ''true''), (''confidence'', JFloat 0.9)]))
      (snd (verify_generate (canned_service (Inr (JStr ''I cannot verify this.'')) (Inl BackendError))
        ''The Earth is round.'' []))
    = Inl JSONDecodeError
   \<and> snd (verify_claim (canned_service (Inr (JStr ''I cannot verify this.'')) (Inl BackendError))
        (canned_runtime ''{"verdict": "true", "confidence": 0.9}''
          (JDict [(''verdict'', JStr ''true''), (''confidence'', JFloat 0.9)]))
        ''The Earth is round.'' [])
      = Inr (of_verification (rule_based_verify_claim ''The Earth is round.'' []))
   \<and> parse_response (canned_runtime ''{"verdict": "true", "confidence": 0.9}''
        (JDict [(''verdict'', JStr ''true''), (''confidence'', JFloat 0.9)]))
      (snd (verify_generate
        (canned_service (Inr (JStr ''{"verdict": "true", "confidence": 0.9}'')) (Inl BackendError))
        ''The Earth is round.'' []))
    = Inr \<lparr>res_verdict = JStr ''true'', res_confidence = 0.9, res_explanation = JStr '''',
           res_citations = JList []\<rparr>
   \<and> snd (verify_claim
        (canned_service (Inr (JStr ''{"verdict": "true", "confidence": 0.9}'')) (Inl BackendError))
        (canned_runtime ''{"verdict": "true", "confidence": 0.9}''
          (JDict [(''verdict'', JStr ''true''), (''confidence'', JFloat 0.9)]))
        ''The Earth is round.'' [])
      = Inr \<lparr>res_verdict = JStr ''true'', res_confidence = 0.9, res_explanation = JStr '''',
           res_citations = JList []\<rparr>\<close>
proof -
  let ?rt = \<open>canned_runtime ''{"verdict": "true", "confidence": 0.9}''
        (JDict [(''verdict'', JStr ''true''), (''confidence'', JFloat 0.9)])\<close>
  let ?down = "canned_service (Inr (JStr ''I cannot verify this.'')) (Inl BackendError)"
  let ?up = \<open>canned_service (Inr (JStr ''{"verdict": "true", "confidence": 0.9}''))
        (Inl BackendError)\<close>
  let ?claim = "''The Earth is round.''"
  note h1 = fallback_rejected
  note h2 = reply_parsed
  from verify_claim_never_raises [of ?down ?rt ?claim "[]"] h1
  have c1: "snd (verify_claim ?down ?rt ?claim [])
      = Inr (of_verification (rule_based_verify_claim ?claim []))"
    by auto
  from verify_claim_never_raises [of ?up ?rt ?claim "[]"] h2
  have c2: "snd (verify_claim ?up ?rt ?claim [])
      = Inr \<lparr>res_verdict = JStr ''true'', res_confidence = 0.9, res_explanation = JStr '''',
           res_citations = JList []\<rparr>"
    by auto
  from h1 h2 c1 c2 show ?thesis by (intro conjI)
qed

section \<open>The range of confidences and trust scores\<close>

lemma sum_list_unit_range:
  "(\<And>x. x \<in> set xs \<Longrightarrow> 0 \<le> f x \<and> f x \<le> (1::real)) \<Longrightarrow>
   0 \<le> sum_list (map f xs) \<and> sum_list (map f xs) \<le> real (length xs)"
proof (induction xs)
  case Nil
  show ?case by simp
next
  case (Cons x xs)
  have "0 \<le> f x \<and> f x \<le> 1" by (rule Cons.prems) simp
  moreover have "0 \<le> sum_list (map f xs) \<and> sum_list (map f xs) \<le> real (length xs)"
    by (rule Cons.IH) (simp add: Cons.prems)
  ultimately show ?case by simp
qed

lemma mean_unit_range:
  assumes "\<And>x. x \<in> set xs \<Longrightarrow> 0 \<le> f x \<and> f x \<le> (1::real)"
  shows "0 \<le> sum_list (map f xs) / real (length xs)
     \<and> sum_list (map f xs) / real (length xs) \<le> 1"
proof (cases "xs = []")
  case True
  then show ?thesis by simp
next
  case False
  then have p: "0 < real (length xs)" by simp
  from sum_list_unit_range [of xs f] assms
  have "0 \<le> sum_list (map f xs)" "sum_list (map f xs) \<le> real (length xs)" by blast+
  with p show ?thesis by (simp add: divide_le_eq)
qed

lemma aggregate_confidence_range:
  assumes "\<forall>v\<in>set verdicts. 0 \<le> get_confidence v \<and> get_confidence v \<le> 1"
  shows "\<exists>a. aggregate_verdicts verdicts = Inr a \<and> 0 \<le> agg_confidence a \<and> agg_confidence a \<le> 1"
proof (cases "verdicts = []")
  case True
  then show ?thesis by (simp add: aggregate_verdicts_def)
next
  case False
  from aggregate_verdicts_vote [OF False] obtain r where
    a: "aggregate_verdicts verdicts = Inr r" and
    c: "agg_confidence r =
        sum_list (map get_confidence
          (filter (\<lambda>v. normalize_verdict (get_verdict v) = agg_verdict r) verdicts))
        / real (length (filter (\<lambda>v. normalize_verdict (get_verdict v) = agg_verdict r) verdicts))"
    by blast
  have "0 \<le> agg_confidence r \<and> agg_confidence r \<le> 1"
    unfolding c by (rule mean_unit_range) (use assms in auto)
  with a show ?thesis by blast
qed

lemma trust_score_of_range:
  "0 \<le> trust_score_of (analyze_source urlparse_netloc url)
   \<and> trust_score_of (analyze_source urlparse_netloc url) \<le> 1"
proof (cases "urlparse_netloc url")
  case (Inl e)
  then show ?thesis by (simp add: analyze_source_def trust_score_of_def)
next
  case (Inr netloc)
  then show ?thesis
    using calculate_trust_score_range [of "basic_metrics netloc url"]
    by (simp add: analyze_source_def trust_score_of_def Let_def)
qed

text \<open>
  C1, as stated, fails: \<open>verify_claim\<close> coerces the backend's confidence with \<open>float\<close> and
  returns it as it is, and \<open>aggregate_verdicts\<close> returns a plain mean. A backend reply with
  confidence 1.5 is returned with confidence 1.5, and one response of confidence 2
  aggregates to 2.
\<close>

theorem confidence_unclamped_counterexample:
  \<open>verify_claim
      (canned_service (Inr (JStr ''{"verdict": "true", "confidence": 1.5}'')) (Inl BackendError))
      (canned_runtime ''{"verdict": "true", "confidence": 1.5}''
        (JDict [(''verdict'', JStr ''true''), (''confidence'', JFloat 1.5)]))
      ''The Earth is round.'' []
   = ([OpenAITier],
      Inr \<lparr>res_verdict = JStr ''true'', res_confidence = 1.5, res_explanation = JStr '''',
           res_citations = JList []\<rparr>)
   \<and> aggregate_verdicts [\<lparr>resp_verdict = Some ''true'', resp_confidence = Some 2\<rparr>]
     = Inr \<lparr>agg_verdict = ''true'', agg_confidence = 2, agg_count = 1,
            agg_distribution = Some [(''true'', 1)]\<rparr>\<close>
proof -
  have "normalize_verdict ''true'' = ''true''" by code_simp
  then have "aggregate_verdicts [\<lparr>resp_verdict = Some ''true'', resp_confidence = Some 2\<rparr>]
     = Inr \<lparr>agg_verdict = ''true'', agg_confidence = 2, agg_count = 1,
            agg_distribution = Some [(''true'', 1)]\<rparr>"
    by (simp add: aggregate_verdicts_def normalized_verdicts_def get_verdict_def
        get_confidence_def verdict_counts_of_def max_by_count_def matching_verdicts_def Let_def)
  moreover have \<open>verify_claim
      (canned_service (Inr (JStr ''{"verdict": "true", "confidence": 1.5}'')) (Inl BackendError))
      (canned_runtime ''{"verdict": "true", "confidence": 1.5}''
        (JDict [(''verdict'', JStr ''true''), (''confidence'', JFloat 1.5)]))
      ''The Earth is round.'' []
   = ([OpenAITier],
      Inr \<lparr>res_verdict = JStr ''true'', res_confidence = 1.5, res_explanation = JStr '''',
           res_citations = JList []\<rparr>)\<close>
    by (simp add: verify_claim_def verify_generate_def generate_def canned_service_def
      canned_runtime_def parse_response_def json_span_def strip_def lstrip_def rstrip_def
      isspace_def slice_def find_char_def rfind_char_def build_result_def dict_get_def
      py_float_def Let_def)
  ultimately show ?thesis by (intro conjI)
qed

text \<open>
  C1, amended. The trust score of the credibility analyzer is clamped to \<open>[0, 1]\<close>, also in
  the handler's error report; the confidence of the rule-based verifier lies in \<open>[0, 1]\<close>,
  hence so does the confidence of \<open>verify_claim\<close> whenever parsing the backend's reply
  raises; and the confidence of \<open>aggregate_verdicts\<close> lies in \<open>[0, 1]\<close> whenever every
  confidence it is given does.
\<close>

theorem confidence_ranges:
  "0 \<le> calculate_trust_score m \<and> calculate_trust_score m \<le> 1
   \<and> 0 \<le> trust_score_of (analyze_source urlparse_netloc url)
   \<and> trust_score_of (analyze_source urlparse_netloc url) \<le> 1
   \<and> 0 \<le> vr_confidence (rule_based_verify_claim claim evidence)
   \<and> vr_confidence (rule_based_verify_claim claim evidence) \<le> 1
   \<and> ((\<exists>e. parse_response rt (snd (verify_generate svc claim evidence)) = Inl e) \<longrightarrow>
       (\<exists>r. snd (verify_claim svc rt claim evidence) = Inr r
          \<and> 0 \<le> res_confidence r \<and> res_confidence r \<le> 1))
   \<and> ((\<forall>v\<in>set verdicts. 0 \<le> get_confidence v \<and> get_confidence v \<le> 1) \<longrightarrow>
       (\<exists>a. aggregate_verdicts verdicts = Inr a
          \<and> 0 \<le> agg_confidence a \<and> agg_confidence a \<le> 1))"
proof (intro conjI impI)
  show "0 \<le> calculate_trust_score m" "calculate_trust_score m \<le> 1"
    using calculate_trust_score_range [of m] by simp_all
  show "0 \<le> trust_score_of (analyze_source urlparse_netloc url)"
    "trust_score_of (analyze_source urlparse_netloc url) \<le> 1"
    using trust_score_of_range [of urlparse_netloc url] by simp_all
  show "0 \<le> vr_confidence (rule_based_verify_claim claim evidence)"
    "vr_confidence (rule_based_verify_claim claim evidence) \<le> 1"
    using rule_based_confidence_range [of claim evidence] by simp_all
next
  assume "\<exists>e. parse_response rt (snd (verify_generate svc claim evidence)) = Inl e"
  then obtain e where "parse_response rt (snd (verify_generate svc claim evidence)) = Inl e" ..
  then have "snd (verify_claim svc rt claim evidence)
      = Inr (of_verification (rule_based_verify_claim claim evidence))"
    by (simp add: verify_claim_failed)
  moreover have "0 \<le> res_confidence (of_verification (rule_based_verify_claim claim evidence))
     \<and> res_confidence (of_verification (rule_based_verify_claim claim evidence)) \<le> 1"
    using rule_based_confidence_range [of claim evidence] by (simp add: of_verification_def)
  ultimately show "\<exists>r. snd (verify_claim svc rt claim evidence) = Inr r
          \<and> 0 \<le> res_confidence r \<and> res_confidence r \<le> 1"
    by blast
next
  assume "\<forall>v\<in>set verdicts. 0 \<le> get_confidence v \<and> get_confidence v \<le> 1"
  then show "\<exists>a. aggregate_verdicts verdicts = Inr a
          \<and> 0 \<le> agg_confidence a \<and> agg_confidence a \<le> 1"
    by (rule aggregate_confidence_range)
qed

theorem confidence_ranges_witness:
  \<open>parse_response (canned_runtime ''{}'' (JDict []))
      (snd (verify_generate (canned_service (Inr (JStr ''no JSON here'')) (Inl BackendError))
        ''Water boils at 100 degrees.'' []))
     = Inl JSONDecodeError
   \<and> (\<exists>r. snd (verify_claim (canned_service (Inr (JStr ''no JSON here'')) (Inl BackendError))
              (canned_runtime ''{}'' (JDict [])) ''Water boils at 100 degrees.'' []) = Inr r
        \<and> 0 \<le> res_confidence r \<and> res_confidence r \<le> 1)
   \<and> 0 \<le> get_confidence \<lparr>resp_verdict = Some ''true'', resp_confidence = Some 0.9\<rparr>
   \<and> get_confidence \<lparr>resp_verdict = Some ''true'', resp_confidence = Some 0.9\<rparr> \<le> 1
   \<and> 0 \<le> get_confidence \<lparr>resp_verdict = Some ''false'', resp_confidence = Some 0.4\<rparr>
   \<and> get_confidence \<lparr>resp_verdict = Some ''false'', resp_confidence = Some 0.4\<rparr> \<le> 1
   \<and> (\<exists>a. aggregate_verdicts
          [\<lparr>resp_verdict = Some ''true'', resp_confidence = Some 0.9\<rparr>,
           \<lparr>resp_verdict = Some ''false'', resp_confidence = Some 0.4\<rparr>] = Inr a
        \<and> 0 \<le> agg_confidence a \<and> agg_confidence a \<le> 1)\<close>
proof -
  let ?rt = \<open>canned_runtime ''{}'' (JDict [])\<close>
  let ?svc = "canned_service (Inr (JStr ''no JSON here'')) (Inl BackendError)"
  let ?claim = "''Water boils at 100 degrees.''"
  let ?v1 = "\<lparr>resp_verdict = Some ''true'', resp_confidence = Some (0.9::real)\<rparr>"
  let ?v2 = "\<lparr>resp_verdict = Some ''false'', resp_confidence = Some (0.4::real)\<rparr>"
  have h1: "parse_response ?rt (snd (verify_generate ?svc ?claim [])) = Inl JSONDecodeError"
    by (simp add: verify_generate_def generate_def canned_service_def
      canned_runtime_def parse_response_def json_span_def strip_def lstrip_def rstrip_def
      isspace_def Let_def)
  have g: "0 \<le> get_confidence ?v1" "get_confidence ?v1 \<le> 1"
    "0 \<le> get_confidence ?v2" "get_confidence ?v2 \<le> 1"
    by (simp_all add: get_confidence_def)
  then have h2: "\<forall>v\<in>set [?v1, ?v2]. 0 \<le> get_confidence v \<and> get_confidence v \<le> 1"
    by simp
  note t = confidence_ranges [where rt = ?rt and svc = ?svc and claim = ?claim
      and evidence = "[]" and verdicts = "[?v1, ?v2]"]
  from t h1 have c1: "\<exists>r. snd (verify_claim ?svc ?rt ?claim []) = Inr r
        \<and> 0 \<le> res_confidence r \<and> res_confidence r \<le> 1"
    by blast
  from t h2 have c2: "\<exists>a. aggregate_verdicts [?v1, ?v2] = Inr a
        \<and> 0 \<le> agg_confidence a \<and> agg_confidence a \<le> 1"
    by blast
  from h1 g c1 c2 show ?thesis by (intro conjI)
qed

section \<open>Properties of the claim extractor\<close>

lemma fusion_inv_init: "fusion_inv ([], [])"
  by (simp add: fusion_inv_def)

lemma fusion_inv_add_claim:
  assumes "fusion_inv st" "confidence_ok c" "claim_key c \<notin> set (snd st)"
  shows "fusion_inv (add_claim st c method)"
  using assms
  by (cases st) (auto simp: fusion_inv_def add_claim_def claim_key_def confidence_ok_def)

lemma fusion_inv_add_spacy:
  "fusion_inv st \<Longrightarrow> confidence_ok c \<Longrightarrow> fusion_inv (add_spacy st c)"
  by (simp add: add_spacy_def fusion_inv_add_claim)

lemma fusion_inv_add_llm:
  "fusion_inv st \<Longrightarrow> confidence_ok c \<Longrightarrow> fusion_inv (add_llm st c)"
  by (simp add: add_llm_def fusion_inv_add_claim)

lemma fusion_inv_add_simple:
  "fusion_inv st \<Longrightarrow> confidence_ok c \<Longrightarrow> fusion_inv (add_simple st c)"
  by (simp add: add_simple_def fusion_inv_add_claim)

lemma fusion_inv_foldl:
  assumes step: "\<And>st c. fusion_inv st \<Longrightarrow> confidence_ok c \<Longrightarrow> fusion_inv (add st c)"
  shows "fusion_inv st \<Longrightarrow> list_all confidence_ok cs \<Longrightarrow> fusion_inv (foldl add st cs)"
proof (induction cs arbitrary: st)
  case Nil
  then show ?case by simp
next
  case (Cons c cs)
  from Cons.prems have "fusion_inv (add st c)" by (simp add: step)
  with Cons.prems show ?case by (simp add: Cons.IH)
qed

lemma spacy_step_ok:
  "list_all confidence_ok claims \<Longrightarrow> list_all confidence_ok (spacy_step claims sent)"
  by (simp add: spacy_step_def Let_def confidence_ok_def)

lemma spacy_foldl_ok:
  "list_all confidence_ok claims \<Longrightarrow> list_all confidence_ok (foldl spacy_step claims sents)"
  by (induction sents arbitrary: claims) (simp_all add: spacy_step_ok)

lemma extract_with_spacy_ok:
  "extract_with_spacy nlp text = Inr claims \<Longrightarrow> list_all confidence_ok claims"
  using spacy_foldl_ok [of "[]"]
  by (auto simp: extract_with_spacy_def split: option.splits sum.splits)

lemma llm_items_ok:
  "0 \<le> base \<Longrightarrow> base \<le> 1 \<Longrightarrow> llm_items idx base method items = Inr claims \<Longrightarrow>
   list_all confidence_ok claims"
proof (induction items arbitrary: idx claims)
  case Nil
  then show ?case by simp
next
  case (Cons item items)
  from Cons.prems(3) obtain s rest where
    r: "llm_items (idx + 1) base method items = Inr rest"
    and c: "claims = (if strip s \<noteq> []
              then \<lparr>claim_id = idx + 1, claim_text = s, claim_confidence = base,
                    claim_method = Some method\<rparr> # rest
              else rest)"
    by (auto split: sum.splits json.splits)
  from Cons.IH [OF Cons.prems(1,2) r] have "list_all confidence_ok rest" .
  with Cons.prems(1,2) show ?case unfolding confidence_ok_def by (simp add: c)
qed

lemma llm_parse_ok:
  "llm_parse rt with_context response = Inr claims \<Longrightarrow> list_all confidence_ok claims"
proof -
  assume a: "llm_parse rt with_context response = Inr claims"
  then obtain items where
    "llm_items 0 (if with_context then 0.85 else 0.8)
       (if with_context then ''llm_rag'' else ''llm'') items = Inr claims"
    by (auto simp: llm_parse_def Let_def split: json.splits sum.splits simp del: llm_items.simps)
  moreover have "0 \<le> (if with_context then 0.85 else 0.8 :: real)"
    "(if with_context then 0.85 else 0.8 :: real) \<le> 1"
    by simp_all
  ultimately show ?thesis by (rule llm_items_ok [rotated 2])
qed

lemma extract_with_llm_ok:
  "list_all confidence_ok (extract_with_llm llm_service rt rag text)"
  by (auto simp: extract_with_llm_def Let_def split: option.splits sum.splits prod.splits
      dest: llm_parse_ok)

lemma simple_loop_ok: "list_all confidence_ok (simple_loop idx pieces)"
  by (induction pieces arbitrary: idx) (simp_all add: Let_def confidence_ok_def)

lemma extract_simple_ok: "list_all confidence_ok (extract_simple text)"
  by (simp add: extract_simple_def simple_loop_ok)

lemma renumber_key: "map claim_key (renumber idx cs) = map claim_key cs"
  by (induction cs arbitrary: idx) (simp_all add: claim_key_def)

lemma renumber_confidence: "map claim_confidence (renumber idx cs) = map claim_confidence cs"
  by (induction cs arbitrary: idx) simp_all

lemma renumber_length: "length (renumber idx cs) = length cs"
  by (induction cs arbitrary: idx) simp_all

lemma renumber_ids: "map claim_id (renumber idx cs) = [idx..<idx + length cs]"
  by (induction cs arbitrary: idx) (simp_all add: upt_rec)

lemma fused_state_inv:
  assumes "text \<noteq> []" "\<not> length (strip text) < 10"
  shows "\<exists>st. fusion_inv st
     \<and> extract self rt text = renumber 1 (sort_key (\<lambda>c. - claim_confidence c) (fst st))"
proof -
  let ?st0 = "([], []) :: fusion"
  let ?st1 = "case extract_with_spacy (ext_nlp self) text of
                Inl e \<Rightarrow> ?st0
              | Inr spacy_claims \<Rightarrow> foldl add_spacy ?st0 spacy_claims"
  let ?st2 = "if use_llm self \<and> ext_llm_service self \<noteq> None
              then foldl add_llm ?st1
                     (extract_with_llm (ext_llm_service self) rt (ext_rag_retriever self) text)
              else ?st1"
  let ?st3 = "foldl add_simple ?st2 (extract_simple text)"
  have i1: "fusion_inv ?st1"
  proof (cases "extract_with_spacy (ext_nlp self) text")
    case (Inl e)
    then show ?thesis by (simp add: fusion_inv_init)
  next
    case (Inr spacy_claims)
    have "fusion_inv (foldl add_spacy ?st0 spacy_claims)"
      by (rule fusion_inv_foldl [OF fusion_inv_add_spacy fusion_inv_init])
        (use Inr in \<open>auto dest: extract_with_spacy_ok\<close>)
    with Inr show ?thesis by simp
  qed
  have i2: "fusion_inv ?st2"
  proof (cases "use_llm self \<and> ext_llm_service self \<noteq> None")
    case True
    have "fusion_inv (foldl add_llm ?st1
        (extract_with_llm (ext_llm_service self) rt (ext_rag_retriever self) text))"
      by (rule fusion_inv_foldl [OF fusion_inv_add_llm i1]) (auto simp: extract_with_llm_ok)
    then show ?thesis unfolding if_P [OF True] .
  next
    case False
    show ?thesis unfolding if_not_P [OF False] by (rule i1)
  qed
  have i3: "fusion_inv ?st3"
    by (rule fusion_inv_foldl [OF fusion_inv_add_simple i2]) (auto simp: extract_simple_ok)
  have "extract self rt text = renumber 1 (sort_key (\<lambda>c. - claim_confidence c) (fst ?st3))"
    using assms by (simp add: extract_def Let_def)
  with i3 show ?thesis by blast
qed

lemma distinct_keys_sort:
  "distinct (map claim_key xs) \<Longrightarrow> distinct (map claim_key (sort_key f xs))"
  by (simp add: distinct_map)

text \<open>
  C8. For every extractor, runtime and input text, the claims that \<open>extract\<close> returns have
  pairwise different texts after trimming and lower-casing, confidences in \<open>[0, 1]\<close>, the
  ids \<open>1..N\<close> in order, and non-increasing confidences.
\<close>

theorem extract_fused:
  "distinct (map claim_key (extract self rt text))
   \<and> (\<forall>c \<in> set (extract self rt text). 0 \<le> claim_confidence c \<and> claim_confidence c \<le> 1)
   \<and> map claim_id (extract self rt text) = [1..<Suc (length (extract self rt text))]
   \<and> sorted_wrt (\<lambda>x y. y \<le> x) (map claim_confidence (extract self rt text))"
proof (cases "text = [] \<or> length (strip text) < 10")
  case True
  then have "extract self rt text = []" by (simp add: extract_def)
  then show ?thesis by simp
next
  case False
  then obtain st where inv: "fusion_inv st"
    and e: "extract self rt text = renumber 1 (sort_key (\<lambda>c. - claim_confidence c) (fst st))"
    using fused_state_inv [of "text" self rt] by blast
  let ?sorted = "sort_key (\<lambda>c. - claim_confidence c) (fst st)"
  from inv have d: "distinct (map claim_key (fst st))"
    and ok: "list_all confidence_ok (fst st)"
    by (simp_all add: fusion_inv_def)
  have "distinct (map claim_key (extract self rt text))"
    unfolding e renumber_key using d by (rule distinct_keys_sort)
  moreover have "\<forall>c \<in> set (extract self rt text).
      0 \<le> claim_confidence c \<and> claim_confidence c \<le> 1"
  proof
    fix c assume "c \<in> set (extract self rt text)"
    then have "claim_confidence c \<in> set (map claim_confidence (extract self rt text))" by simp
    then have "claim_confidence c \<in> set (map claim_confidence (fst st))"
      unfolding e renumber_confidence by simp
    then obtain c' where "c' \<in> set (fst st)" "claim_confidence c' = claim_confidence c" by auto
    with ok show "0 \<le> claim_confidence c \<and> claim_confidence c \<le> 1"
      by (auto simp: list_all_iff confidence_ok_def)
  qed
  moreover have "map claim_id (extract self rt text) = [1..<Suc (length (extract self rt text))]"
    unfolding e by (simp add: renumber_ids renumber_length)
  moreover have "sorted_wrt (\<lambda>x y. y \<le> x) (map claim_confidence (extract self rt text))"
  proof -
    have "sorted (map (\<lambda>c. - claim_confidence c) ?sorted)" by (rule sorted_sort_key)
    then have "sorted_wrt (\<lambda>x y. claim_confidence y \<le> claim_confidence x) ?sorted"
      by (simp add: sorted_wrt_map)
    then show ?thesis unfolding e renumber_confidence by (simp add: sorted_wrt_map)
  qed
  ultimately show ?thesis by blast
qed

theorem extract_fused_witness:
  "extract \<lparr>use_llm = False, ext_llm_service = None, ext_rag_retriever = None, ext_nlp = None\<rparr>
      (canned_runtime ''[]'' (JList []))
      ''The Earth is round and it orbits the Sun. Water is wet. The Moon has no atmosphere at all!''
    = [\<lparr>claim_id = 1, claim_text = ''The Earth is round and it orbits the Sun'',
         claim_confidence = 0.6, claim_method = Some ''fallback''\<rparr>,
       \<lparr>claim_id = 2, claim_text = ''The Moon has no atmosphere at all'',
         claim_confidence = 0.6, claim_method = Some ''fallback''\<rparr>]
   \<and> distinct (map claim_key
        (extract \<lparr>use_llm = False, ext_llm_service = None, ext_rag_retriever = None,
            ext_nlp = None\<rparr>
          (canned_runtime ''[]'' (JList []))
          ''The Earth is round and it orbits the Sun. Water is wet. The Moon has no atmosphere at all!''))
   \<and> 0 \<le> claim_confidence
        \<lparr>claim_id = 1, claim_text = ''The Earth is round and it orbits the Sun'',
         claim_confidence = 0.6, claim_method = Some ''fallback''\<rparr>
   \<and> claim_confidence
        \<lparr>claim_id = 1, claim_text = ''The Earth is round and it orbits the Sun'',
         claim_confidence = 0.6, claim_method = Some ''fallback''\<rparr> \<le> 1"
proof -
  let ?self = "\<lparr>use_llm = False, ext_llm_service = None, ext_rag_retriever = None,
      ext_nlp = None\<rparr>"
  let ?rt = "canned_runtime ''[]'' (JList [])"
  let ?text = "''The Earth is round and it orbits the Sun. Water is wet. The Moon has no atmosphere at all!''"
  let ?c1 = "\<lparr>claim_id = 1, claim_text = ''The Earth is round and it orbits the Sun'',
         claim_confidence = 0.6, claim_method = Some ''fallback''\<rparr>"
  let ?c2 = "\<lparr>claim_id = 2, claim_text = ''The Moon has no atmosphere at all'',
         claim_confidence = 0.6, claim_method = Some ''fallback''\<rparr>"
  have v: "extract ?self ?rt ?text = [?c1, ?c2]"
    by code_simp
  then have m: "?c1 \<in> set (extract ?self ?rt ?text)" by simp
  note t = extract_fused [of ?self ?rt ?text]
  from t have d: "distinct (map claim_key (extract ?self ?rt ?text))" by blast
  from t m have r: "0 \<le> claim_confidence ?c1 \<and> claim_confidence ?c1 \<le> 1" by blast
  from v d r show ?thesis by blast
qed

end
